theory Spec2Isabelle
  imports Main "HOL-Library.Word" "HOL-Library.Signed_Division"
begin

section \<open>Pixel buffers\<close>

text \<open>
  A pixel buffer is byte-addressed memory; addresses are integers, so that the pointers
  the module moves backwards (the last element of a row, the row before the first) are
  ordinary values. Source and destination are \<^verbatim>\<open>restrict\<close> pointers in every
  primitive of \<^verbatim>\<open>orient.c\<close>: the source memory is a read-only argument, the
  destination memory is threaded through as state. Next to the destination bytes the state
  records every address read from the source and every address written in the destination.
\<close>

type_synonym byte = "8 word"
type_synonym mem = "int \<Rightarrow> byte"

record access =
  dstm :: mem
  rds :: "int set"
  wrs :: "int set"

text \<open>
  The machine integers of the module. An \<^verbatim>\<open>int\<close> and an \<^verbatim>\<open>unsigned\<close> are
  32-bit words: \<open>sint\<close> reads the value of an \<^verbatim>\<open>int\<close>, \<open>uint\<close> the value of an
  \<^verbatim>\<open>unsigned\<close>, and arithmetic on them wraps modulo \<open>2 ^ 32\<close>. A \<^verbatim>\<open>size_t\<close> is a
  64-bit word. The integers \<open>k\<close> with \<open>in_int k\<close> are the values of an \<^verbatim>\<open>int\<close>,
  from \<^verbatim>\<open>INT_MIN\<close> to \<^verbatim>\<open>INT_MAX\<close>. The \<^verbatim>\<open>int\<close> parameters \<open>width\<close> and
  \<open>height\<close> of the plane primitives and their loop counters, which are only compared
  and incremented below a bound, are given by their values; where the module computes with
  an \<^verbatim>\<open>int\<close> (the shift of \<^verbatim>\<open>vflip\<close>, the subtractions of \<^verbatim>\<open>Mouse\<close>) the model
  computes on the word.
\<close>

type_synonym c_int = "32 word"
type_synonym c_unsigned = "32 word"
type_synonym size_t = "64 word"

definition in_int :: "int \<Rightarrow> bool" where
  "in_int k \<longleftrightarrow> - (2 ^ 31) \<le> k \<and> k < 2 ^ 31"

text \<open>\<^verbatim>\<open>memcpy(dst + d, src + s, n)\<close>: \<open>n\<close> bytes, none when \<open>n \<le> 0\<close>.\<close>

definition memcpy :: "mem \<Rightarrow> int \<Rightarrow> int \<Rightarrow> int \<Rightarrow> access \<Rightarrow> access" where
  "memcpy srcm d s n st =
     st\<lparr>dstm := (\<lambda>a. if d \<le> a \<and> a < d + n then srcm (s + (a - d)) else dstm st a),
        rds := rds st \<union> {s..<s + n},
        wrs := wrs st \<union> {d..<d + n}\<rparr>"

text \<open>The three instances of the macro \<^verbatim>\<open>TRANSFORMS(bits)\<close>.\<close>

datatype bits = B8 | B16 | B32

fun nbits :: "bits \<Rightarrow> int" where
  "nbits B8 = 8"
| "nbits B16 = 16"
| "nbits B32 = 32"

text \<open>\<^verbatim>\<open>sizeof(uint##bits##_t)\<close>, which is \<^verbatim>\<open>bits / 8\<close>.\<close>

definition esize :: "bits \<Rightarrow> int" where
  "esize b = nbits b div 8"

text \<open>
  \<^verbatim>\<open>dst_pixels[i] = src_pixels[j]\<close> for two \<^verbatim>\<open>uint##bits##_t\<close> pointers at the byte
  addresses \<open>dp\<close> and \<open>sp\<close>: the \<open>esize b\<close> bytes of one element move together.
\<close>

definition assign :: "bits \<Rightarrow> mem \<Rightarrow> int \<Rightarrow> int \<Rightarrow> int \<Rightarrow> int \<Rightarrow> access \<Rightarrow> access" where
  "assign b srcm dp i sp j st =
     memcpy srcm (dp + i * esize b) (sp + j * esize b) (esize b) st"

section \<open>The plane primitives\<close>

subsection \<open>vflip\<close>

text \<open>
  The loop of \<^verbatim>\<open>vflip\<close>: the destination pointer steps back one row before each copy.
  Pointer arithmetic is taken not to overflow.
\<close>

function vflip_y ::
  "mem \<Rightarrow> int \<Rightarrow> int \<Rightarrow> int \<Rightarrow> int \<Rightarrow> int \<Rightarrow> int \<Rightarrow> int \<Rightarrow> access \<Rightarrow> access" where
  "vflip_y srcm height visible_pitch src_stride dst_stride src_pixels dst_pixels y st =
     (if y < height
      then vflip_y srcm height visible_pitch src_stride dst_stride
             (src_pixels + src_stride) (dst_pixels - dst_stride) (y + 1)
             (memcpy srcm (dst_pixels - dst_stride) src_pixels visible_pitch st)
      else st)"
  by pat_completeness auto
termination
  by (relation "measure (\<lambda>(srcm, height, vp, ss, ds, sp, dp, y, st). nat (height - y))") auto

text \<open>
  \<^verbatim>\<open>size_t visible_pitch = width << order\<close> shifts the \<^verbatim>\<open>int\<close> \<open>width\<close> in
  \<^verbatim>\<open>int\<close> and converts the result to \<^verbatim>\<open>size_t\<close>. The shift is taken on the 32 bits of
  \<open>width\<close>, so a row size that does not fit in \<^verbatim>\<open>int\<close> wraps; the conversion extends
  the sign (\<open>scast\<close>), so a negative result becomes a size near \<open>2 ^ 64\<close>. The number of
  bytes \<^verbatim>\<open>memcpy\<close> copies is the unsigned value of \<open>visible_pitch\<close>.
\<close>

definition vflip ::
  "int \<Rightarrow> int \<Rightarrow> int \<Rightarrow> int \<Rightarrow> int \<Rightarrow> int \<Rightarrow> nat \<Rightarrow> mem \<Rightarrow> access \<Rightarrow> access" where
  "vflip dst dst_stride src src_stride width height order srcm st =
     (let visible_pitch = (scast (push_bit order (word_of_int width :: c_int)) :: size_t);
          dst_pixels = dst + dst_stride * height
      in vflip_y srcm height (uint visible_pitch) src_stride dst_stride src dst_pixels 0 st)"

subsection \<open>hflip\<close>

function hflip_x :: "bits \<Rightarrow> mem \<Rightarrow> int \<Rightarrow> int \<Rightarrow> int \<Rightarrow> int \<Rightarrow> access \<Rightarrow> access" where
  "hflip_x b srcm width src_pixels dst_pixels x st =
     (if x < width
      then hflip_x b srcm width src_pixels dst_pixels (x + 1)
             (assign b srcm dst_pixels (- x) src_pixels x st)
      else st)"
  by pat_completeness auto
termination
  by (relation "measure (\<lambda>(b, srcm, width, sp, dp, x, st). nat (width - x))") auto

text \<open>
  The outer loop; \<open>src_stride\<close> and \<open>dst_stride\<close> are counted in elements here, so
  advancing a \<^verbatim>\<open>uint##bits##_t\<close> pointer by a stride moves it \<open>stride * esize b\<close> bytes.
\<close>

function hflip_y ::
  "bits \<Rightarrow> mem \<Rightarrow> int \<Rightarrow> int \<Rightarrow> int \<Rightarrow> int \<Rightarrow> int \<Rightarrow> int \<Rightarrow> int \<Rightarrow> access \<Rightarrow> access" where
  "hflip_y b srcm width height src_stride dst_stride src_pixels dst_pixels y st =
     (if y < height
      then hflip_y b srcm width height src_stride dst_stride
             (src_pixels + src_stride * esize b) (dst_pixels + dst_stride * esize b) (y + 1)
             (hflip_x b srcm width src_pixels dst_pixels 0 st)
      else st)"
  by pat_completeness auto
termination
  by (relation "measure (\<lambda>(b, srcm, width, height, ss, ds, sp, dp, y, st). nat (height - y))")
    auto

text \<open>
  \<^verbatim>\<open>stride /= bits / 8\<close> is C division, which truncates towards zero: \<open>sdiv\<close>.
\<close>

definition hflip_bits ::
  "bits \<Rightarrow> int \<Rightarrow> int \<Rightarrow> int \<Rightarrow> int \<Rightarrow> int \<Rightarrow> int \<Rightarrow> mem \<Rightarrow> access \<Rightarrow> access" where
  "hflip_bits b dst dst_stride src src_stride width height srcm st =
     (let ds = dst_stride sdiv (nbits b div 8);
          ss = src_stride sdiv (nbits b div 8);
          dst_pixels = dst + (width - 1) * esize b
      in hflip_y b srcm width height ss ds src dst_pixels 0 st)"

subsection \<open>vflip per element width\<close>

text \<open>
  Modelled from the spec: \<^verbatim>\<open>ctz\<close> is declared outside \<^verbatim>\<open>orient.c\<close>. The spec has
  vflip copy whole rows of width \<times> element_size bytes, so \<^verbatim>\<open>width << ctz(bits / 8)\<close>
  shifts by the number of trailing zero bits of the element size.
\<close>

function ctz :: "nat \<Rightarrow> nat" where
  "ctz n = (if n = 0 \<or> odd n then 0 else Suc (ctz (n div 2)))"
  by pat_completeness auto
termination
  by (relation "measure (\<lambda>n. n)") auto

definition vflip_bits ::
  "bits \<Rightarrow> int \<Rightarrow> int \<Rightarrow> int \<Rightarrow> int \<Rightarrow> int \<Rightarrow> int \<Rightarrow> mem \<Rightarrow> access \<Rightarrow> access" where
  "vflip_bits b dst dst_stride src src_stride width height srcm st =
     vflip dst dst_stride src src_stride width height (ctz (nat (nbits b div 8))) srcm st"

subsection \<open>r180\<close>

definition r180_bits ::
  "bits \<Rightarrow> int \<Rightarrow> int \<Rightarrow> int \<Rightarrow> int \<Rightarrow> int \<Rightarrow> int \<Rightarrow> mem \<Rightarrow> access \<Rightarrow> access" where
  "r180_bits b dst dst_stride src src_stride width height srcm st =
     (let src_pixels = src + (height - 1) * src_stride;
          src_stride' = src_stride * (- 1)
      in hflip_bits b dst dst_stride src_pixels src_stride' width height srcm st)"

subsection \<open>transpose\<close>

function transpose_x ::
  "bits \<Rightarrow> mem \<Rightarrow> int \<Rightarrow> int \<Rightarrow> int \<Rightarrow> int \<Rightarrow> int \<Rightarrow> access \<Rightarrow> access" where
  "transpose_x b srcm src_width dst_stride src_pixels dst_pixels x st =
     (if x < src_width
      then transpose_x b srcm src_width dst_stride src_pixels dst_pixels (x + 1)
             (assign b srcm dst_pixels (x * dst_stride) src_pixels x st)
      else st)"
  by pat_completeness auto
termination
  by (relation "measure (\<lambda>(b, srcm, width, ds, sp, dp, x, st). nat (width - x))") auto

function transpose_y ::
  "bits \<Rightarrow> mem \<Rightarrow> int \<Rightarrow> int \<Rightarrow> int \<Rightarrow> int \<Rightarrow> int \<Rightarrow> int \<Rightarrow> int \<Rightarrow> access \<Rightarrow> access" where
  "transpose_y b srcm src_width src_height src_stride dst_stride src_pixels dst_pixels y st =
     (if y < src_height
      then transpose_y b srcm src_width src_height src_stride dst_stride
             (src_pixels + src_stride * esize b) (dst_pixels + 1 * esize b) (y + 1)
             (transpose_x b srcm src_width dst_stride src_pixels dst_pixels 0 st)
      else st)"
  by pat_completeness auto
termination
  by (relation "measure (\<lambda>(b, srcm, width, height, ss, ds, sp, dp, y, st). nat (height - y))")
    auto

definition transpose_bits ::
  "bits \<Rightarrow> int \<Rightarrow> int \<Rightarrow> int \<Rightarrow> int \<Rightarrow> int \<Rightarrow> int \<Rightarrow> mem \<Rightarrow> access \<Rightarrow> access" where
  "transpose_bits b dst dst_stride src src_stride src_width src_height srcm st =
     (let ds = dst_stride sdiv (nbits b div 8);
          ss = src_stride sdiv (nbits b div 8)
      in transpose_y b srcm src_width src_height ss ds src dst 0 st)"

subsection \<open>r270, r90 and antitranspose\<close>

definition r270_bits ::
  "bits \<Rightarrow> int \<Rightarrow> int \<Rightarrow> int \<Rightarrow> int \<Rightarrow> int \<Rightarrow> int \<Rightarrow> mem \<Rightarrow> access \<Rightarrow> access" where
  "r270_bits b dst dst_stride src src_stride src_width src_height srcm st =
     (let dst_pixels = dst + (src_width - 1) * dst_stride;
          dst_stride' = dst_stride * (- 1)
      in transpose_bits b dst_pixels dst_stride' src src_stride src_width src_height srcm st)"

definition r90_bits ::
  "bits \<Rightarrow> int \<Rightarrow> int \<Rightarrow> int \<Rightarrow> int \<Rightarrow> int \<Rightarrow> int \<Rightarrow> mem \<Rightarrow> access \<Rightarrow> access" where
  "r90_bits b dst dst_stride src src_stride src_width src_height srcm st =
     (let src_pixels = src + (src_height - 1) * src_stride;
          src_stride' = src_stride * (- 1)
      in transpose_bits b dst dst_stride src_pixels src_stride' src_width src_height srcm st)"

definition antitranspose_bits ::
  "bits \<Rightarrow> int \<Rightarrow> int \<Rightarrow> int \<Rightarrow> int \<Rightarrow> int \<Rightarrow> int \<Rightarrow> mem \<Rightarrow> access \<Rightarrow> access" where
  "antitranspose_bits b dst dst_stride src src_stride src_width src_height srcm st =
     (let src_pixels = src + (src_height - 1) * src_stride;
          src_stride' = src_stride * (- 1)
      in r270_bits b dst dst_stride src_pixels src_stride' src_width src_height srcm st)"

section \<open>Reading a plane\<close>

text \<open>
  The address of the element in row \<open>row\<close> and column \<open>col\<close> of a plane that starts at
  \<open>base\<close> with a row stride of \<open>stride\<close> bytes, the bytes of the element stored there,
  and the bytes of the visible part of a plane (\<open>height\<close> rows of \<open>width\<close> elements).
\<close>

definition px :: "bits \<Rightarrow> int \<Rightarrow> int \<Rightarrow> int \<Rightarrow> int \<Rightarrow> int" where
  "px b base stride row col = base + row * stride + col * esize b"

definition elem :: "bits \<Rightarrow> mem \<Rightarrow> int \<Rightarrow> byte list" where
  "elem b m a = map (\<lambda>k. m (a + int k)) [0..<nat (esize b)]"

definition visible :: "bits \<Rightarrow> int \<Rightarrow> int \<Rightarrow> int \<Rightarrow> int \<Rightarrow> int set" where
  "visible b base stride width height =
     (\<Union>r\<in>{0..<height}. {base + r * stride ..< base + r * stride + width * esize b})"

text \<open>A memory holding the bytes of a list from address 0 on, and a blank destination.\<close>

definition mem_of_list :: "byte list \<Rightarrow> mem" where
  "mem_of_list xs = (\<lambda>a. if 0 \<le> a \<and> a < int (length xs) then xs ! nat a else 0)"

definition fresh :: access where
  "fresh = \<lparr>dstm = (\<lambda>a. 0), rds = {}, wrs = {}\<rparr>"

section \<open>The catalogue of transforms\<close>

text \<open>
  A plane callback takes the arguments of the C functions (destination pointer and stride,
  source pointer and stride, width, height) and, as the embedding of the memory behind the
  two pointers, the source memory and the destination state.
\<close>

type_synonym plane_transform_cb =
  "int \<Rightarrow> int \<Rightarrow> int \<Rightarrow> int \<Rightarrow> int \<Rightarrow> int \<Rightarrow> mem \<Rightarrow> access \<Rightarrow> access"

text \<open>A function pointer is \<open>None\<close> when it is \<^verbatim>\<open>NULL\<close>.\<close>

record transform_description_t =
  plane8 :: "plane_transform_cb option"
  plane16 :: "plane_transform_cb option"
  plane32 :: "plane_transform_cb option"

text \<open>The enumeration \<^verbatim>\<open>video_transform_t\<close>, with the names \<^verbatim>\<open>orient.c\<close> uses.\<close>

datatype video_transform_t =
    TRANSFORM_IDENTITY
  | TRANSFORM_HFLIP
  | TRANSFORM_VFLIP
  | TRANSFORM_R180
  | TRANSFORM_R270
  | TRANSFORM_R90
  | TRANSFORM_TRANSPOSE
  | TRANSFORM_ANTI_TRANSPOSE

definition DESC :: "(bits \<Rightarrow> plane_transform_cb) \<Rightarrow> transform_description_t" where
  "DESC g = \<lparr>plane8 = Some (g B8), plane16 = Some (g B16), plane32 = Some (g B32)\<rparr>"

text \<open>
  The table \<^verbatim>\<open>descriptions[]\<close>. It has designated initialisers for the seven transforms
  that move pixels; the entry of \<^verbatim>\<open>TRANSFORM_IDENTITY\<close> has none and holds null
  pointers.
\<close>

fun descriptions :: "video_transform_t \<Rightarrow> transform_description_t" where
  "descriptions TRANSFORM_R90 = DESC r90_bits"
| "descriptions TRANSFORM_R180 = DESC r180_bits"
| "descriptions TRANSFORM_R270 = DESC r270_bits"
| "descriptions TRANSFORM_HFLIP = DESC hflip_bits"
| "descriptions TRANSFORM_VFLIP = DESC vflip_bits"
| "descriptions TRANSFORM_TRANSPOSE = DESC transpose_bits"
| "descriptions TRANSFORM_ANTI_TRANSPOSE = DESC antitranspose_bits"
| "descriptions TRANSFORM_IDENTITY = \<lparr>plane8 = None, plane16 = None, plane32 = None\<rparr>"

text \<open>
  Modelled from the spec: the macro \<^verbatim>\<open>ORIENT_IS_SWAP\<close> is declared outside
  \<^verbatim>\<open>orient.c\<close>. The spec's swap class is R90, R270, TRANSPOSE and ANTITRANSPOSE, the
  transforms that exchange width and height.
\<close>

fun ORIENT_IS_SWAP :: "video_transform_t \<Rightarrow> bool" where
  "ORIENT_IS_SWAP TRANSFORM_R90 = True"
| "ORIENT_IS_SWAP TRANSFORM_R270 = True"
| "ORIENT_IS_SWAP TRANSFORM_TRANSPOSE = True"
| "ORIENT_IS_SWAP TRANSFORM_ANTI_TRANSPOSE = True"
| "ORIENT_IS_SWAP _ = False"

section \<open>Filter state\<close>

text \<open>
  The fields of \<^verbatim>\<open>video_format_t\<close> that \<^verbatim>\<open>orient.c\<close> reads. The structure and its
  field types are declared outside the module; the sizes and offsets are
  \<^verbatim>\<open>unsigned\<close>.
\<close>

type_synonym vlc_fourcc_t = string

record video_format_t =
  i_chroma :: vlc_fourcc_t
  i_width :: c_unsigned
  i_height :: c_unsigned
  i_x_offset :: c_unsigned
  i_y_offset :: c_unsigned
  i_visible_width :: c_unsigned
  i_visible_height :: c_unsigned
  orientation :: nat

record filter_sys_t =
  transform :: video_transform_t
  plane :: "plane_transform_cb option list"

text \<open>
  The one \<^verbatim>\<open>vlc_filter_operations\<close> structure of the module: \<^verbatim>\<open>filter_ops\<close>, with
  \<^verbatim>\<open>.filter_video = Filter\<close> and \<^verbatim>\<open>.video_mouse = Mouse\<close>.
\<close>

datatype vlc_filter_operations = filter_ops

record filter_t =
  fmt_in_video :: video_format_t
  fmt_out_video :: video_format_t
  p_sys :: "filter_sys_t option"
  ops :: "vlc_filter_operations option"

text \<open>What C leaves undefined and the model makes a value.\<close>

datatype fault = Unreachable | NullDeref | NullCall | OutOfBounds | DivByZero

datatype vlc_ret = VLC_SUCCESS | VLC_ENOMEM | VLC_ENOTSUP

section \<open>Filter: one frame\<close>

record plane_t =
  p_pixels :: mem
  i_pitch :: int
  i_pixel_pitch :: int
  i_visible_pitch :: int
  i_visible_lines :: int

text \<open>
  A picture: its planes (the array \<^verbatim>\<open>p[]\<close>), their number, and the properties that
  \<^verbatim>\<open>picture_CopyProperties\<close> carries over. Each plane owns its memory, so
  \<^verbatim>\<open>p_pixels\<close> is that memory and the pointer passed to a callback is address 0 in it.
\<close>

record picture_t =
  pic_p :: "plane_t list"
  i_planes :: int
  properties :: nat

text \<open>
  Modelled from the spec: \<^verbatim>\<open>picture_CopyProperties\<close> is declared outside
  \<^verbatim>\<open>orient.c\<close>; metadata other than pixel content is copied verbatim from the source
  frame to the destination frame.
\<close>

definition picture_CopyProperties :: "picture_t \<Rightarrow> picture_t \<Rightarrow> picture_t" where
  "picture_CopyProperties dst src = dst\<lparr>properties := properties src\<rparr>"

text \<open>The calls \<^verbatim>\<open>Filter\<close> makes, in the order it makes them.\<close>

datatype event = NewPicture | PlaneCall nat | CopyProperties | Release

text \<open>One iteration of the loop over the planes: the indirect call through the table.\<close>

definition call_plane ::
  "filter_sys_t option \<Rightarrow> picture_t \<Rightarrow> picture_t \<Rightarrow> nat \<Rightarrow> fault + picture_t" where
  "call_plane sys dst src i =
     (case sys of
        None \<Rightarrow> Inl NullDeref
      | Some s \<Rightarrow>
          if length (plane s) \<le> i \<or> length (pic_p dst) \<le> i \<or> length (pic_p src) \<le> i
          then Inl OutOfBounds
          else (case plane s ! i of
                  None \<Rightarrow> Inl NullCall
                | Some f \<Rightarrow>
                    let sp = pic_p src ! i; dp = pic_p dst ! i in
                    if i_pixel_pitch sp = 0 then Inl DivByZero
                    else
                      let st = f 0 (i_pitch dp) 0 (i_pitch sp)
                                 (i_visible_pitch sp sdiv i_pixel_pitch sp)
                                 (i_visible_lines sp) (p_pixels sp)
                                 \<lparr>dstm = p_pixels dp, rds = {}, wrs = {}\<rparr>
                      in Inr (dst\<lparr>pic_p := (pic_p dst)[i := dp\<lparr>p_pixels := dstm st\<rparr>]\<rparr>)))"

function Filter_planes ::
  "filter_sys_t option \<Rightarrow> picture_t \<Rightarrow> int \<Rightarrow> picture_t \<times> event list \<Rightarrow>
   fault + picture_t \<times> event list" where
  "Filter_planes sys src i (dst, trace) =
     (if i < i_planes src
      then (case call_plane sys dst src (nat i) of
              Inl e \<Rightarrow> Inl e
            | Inr dst' \<Rightarrow> Filter_planes sys src (i + 1) (dst', trace @ [PlaneCall (nat i)]))
      else Inr (dst, trace))"
  by pat_completeness auto
termination
  by (relation "measure (\<lambda>(sys, src, i, acc). nat (i_planes src - i))") auto

text \<open>
  \<^verbatim>\<open>Filter\<close>. The result of \<^verbatim>\<open>filter_NewPicture\<close> is the argument \<open>new_picture\<close>
  (\<open>None\<close> when the allocation fails). The function returns the destination picture and
  the trace of its calls.
\<close>

definition Filter ::
  "filter_t \<Rightarrow> picture_t option \<Rightarrow> picture_t \<Rightarrow> fault + picture_t option \<times> event list" where
  "Filter filt new_picture src =
     (let sys = p_sys filt in
      case new_picture of
        None \<Rightarrow> Inr (None, [NewPicture, Release])
      | Some dst \<Rightarrow>
          (case Filter_planes sys src 0 (dst, [NewPicture]) of
             Inl e \<Rightarrow> Inl e
           | Inr (dst', trace) \<Rightarrow>
               Inr (Some (picture_CopyProperties dst' src), trace @ [CopyProperties, Release])))"

section \<open>Mouse: pointer coordinates\<close>

text \<open>
  \<^verbatim>\<open>vlc_mouse_t\<close> is declared outside the module, which touches \<^verbatim>\<open>i_x\<close> and
  \<^verbatim>\<open>i_y\<close> only; the other fields are the extension of the record. The coordinates are
  \<^verbatim>\<open>int\<close>s.
\<close>

record vlc_mouse_t =
  i_x :: c_int
  i_y :: c_int

text \<open>
  The two \<^verbatim>\<open>switch\<close> statements; \<open>None\<close> is \<^verbatim>\<open>vlc_assert_unreachable()\<close>. The
  subtractions are those of \<^verbatim>\<open>int\<close>: a difference outside its range wraps.
\<close>

fun Mouse_sx ::
  "video_transform_t \<Rightarrow> c_int \<Rightarrow> c_int \<Rightarrow> c_int \<Rightarrow> c_int \<Rightarrow> c_int option" where
  "Mouse_sx TRANSFORM_HFLIP dw dh dx dy = Some (dw - 1 - dx)"
| "Mouse_sx TRANSFORM_R180 dw dh dx dy = Some (dw - 1 - dx)"
| "Mouse_sx TRANSFORM_VFLIP dw dh dx dy = Some dx"
| "Mouse_sx TRANSFORM_TRANSPOSE dw dh dx dy = Some dy"
| "Mouse_sx TRANSFORM_R90 dw dh dx dy = Some dy"
| "Mouse_sx TRANSFORM_R270 dw dh dx dy = Some (dh - 1 - dy)"
| "Mouse_sx TRANSFORM_ANTI_TRANSPOSE dw dh dx dy = Some (dh - 1 - dy)"
| "Mouse_sx TRANSFORM_IDENTITY dw dh dx dy = None"

fun Mouse_sy ::
  "video_transform_t \<Rightarrow> c_int \<Rightarrow> c_int \<Rightarrow> c_int \<Rightarrow> c_int \<Rightarrow> c_int option" where
  "Mouse_sy TRANSFORM_HFLIP dw dh dx dy = Some dy"
| "Mouse_sy TRANSFORM_VFLIP dw dh dx dy = Some (dh - 1 - dy)"
| "Mouse_sy TRANSFORM_R180 dw dh dx dy = Some (dh - 1 - dy)"
| "Mouse_sy TRANSFORM_TRANSPOSE dw dh dx dy = Some dx"
| "Mouse_sy TRANSFORM_R270 dw dh dx dy = Some dx"
| "Mouse_sy TRANSFORM_R90 dw dh dx dy = Some (dw - 1 - dx)"
| "Mouse_sy TRANSFORM_ANTI_TRANSPOSE dw dh dx dy = Some (dw - 1 - dx)"
| "Mouse_sy TRANSFORM_IDENTITY dw dh dx dy = None"

text \<open>
  \<^verbatim>\<open>Mouse\<close>. The initialisations \<^verbatim>\<open>int dw = fmt->i_visible_width\<close> and
  \<^verbatim>\<open>int dh = fmt->i_visible_height\<close> convert an \<^verbatim>\<open>unsigned\<close> to an \<^verbatim>\<open>int\<close>,
  which keeps its 32 bits.
\<close>

definition Mouse ::
  "filter_t \<Rightarrow> 'a vlc_mouse_t_scheme \<Rightarrow> 'b vlc_mouse_t_scheme \<Rightarrow>
   fault + vlc_ret \<times> 'a vlc_mouse_t_scheme" where
  "Mouse filt mouse mold =
     (let fmt = fmt_out_video filt in
      case p_sys filt of
        None \<Rightarrow> Inl NullDeref
      | Some sys \<Rightarrow>
          let dw = (i_visible_width fmt :: c_int); dh = (i_visible_height fmt :: c_int);
              dx = i_x mouse; dy = i_y mouse
          in (case Mouse_sx (transform sys) dw dh dx dy of
                None \<Rightarrow> Inl Unreachable
              | Some sx \<Rightarrow>
                  (case Mouse_sy (transform sys) dw dh dx dy of
                     None \<Rightarrow> Inl Unreachable
                   | Some sy \<Rightarrow> Inr (VLC_SUCCESS, mouse\<lparr>i_x := sx, i_y := sy\<rparr>))))"

section \<open>Open: setting the filter up\<close>

text \<open>
  The chroma description of a pixel format. The structure is declared outside the module,
  which reads \<^verbatim>\<open>pixel_size\<close>, \<^verbatim>\<open>plane_count\<close> and, of each plane \<^verbatim>\<open>p[i]\<close>
  below \<^verbatim>\<open>plane_count\<close>, the two sample ratios \<^verbatim>\<open>w\<close> and \<^verbatim>\<open>h\<close>. The array
  \<^verbatim>\<open>p[]\<close> is a function of the index; numerators and denominators are naturals, and
  their products are taken not to overflow.
\<close>

record vlc_rational_t =
  num :: nat
  den :: nat

record chroma_plane_t =
  w_ratio :: vlc_rational_t
  h_ratio :: vlc_rational_t

record vlc_chroma_description_t =
  plane_count :: nat
  chroma_p :: "nat \<Rightarrow> chroma_plane_t"
  pixel_size :: nat

text \<open>
  What \<^verbatim>\<open>Open\<close> obtains from outside the module: the three library functions it calls,
  whether \<^verbatim>\<open>vlc_obj_malloc\<close> returns memory, and the constant
  \<^verbatim>\<open>PICTURE_PLANE_MAX\<close>.
\<close>

record collaborators =
  video_format_GetTransform :: "nat \<Rightarrow> nat \<Rightarrow> video_transform_t"
  video_format_TransformBy :: "video_format_t \<Rightarrow> video_transform_t \<Rightarrow> video_format_t"
  vlc_fourcc_GetChromaDescription :: "vlc_fourcc_t \<Rightarrow> vlc_chroma_description_t option"
  vlc_obj_malloc_ok :: bool
  PICTURE_PLANE_MAX :: nat

text \<open>
  Modelled from the spec: the fourcc constants are declared outside \<^verbatim>\<open>orient.c\<close>. They
  name the two packed-chroma formats, whose second plane interleaves two chroma samples.
\<close>

definition VLC_CODEC_NV12 :: vlc_fourcc_t where
  "VLC_CODEC_NV12 = ''NV12''"

definition VLC_CODEC_NV21 :: vlc_fourcc_t where
  "VLC_CODEC_NV21 = ''NV21''"

text \<open>\<^verbatim>\<open>switch (chroma->pixel_size)\<close>: the callback of plane 0, or the default case.\<close>

definition switch_pixel_size ::
  "transform_description_t \<Rightarrow> nat \<Rightarrow> plane_transform_cb option option" where
  "switch_pixel_size dsc n =
     (if n = 1 then Some (plane8 dsc)
      else if n = 2 then Some (plane16 dsc)
      else if n = 4 then Some (plane32 dsc)
      else None)"

text \<open>\<^verbatim>\<open>for (unsigned i = 1; i < PICTURE_PLANE_MAX; i++) sys->plane[i] = sys->plane[0];\<close>\<close>

function fill_planes ::
  "nat \<Rightarrow> nat \<Rightarrow> plane_transform_cb option list \<Rightarrow> plane_transform_cb option list" where
  "fill_planes plane_max i ps =
     (if i < plane_max then fill_planes plane_max (i + 1) (ps[i := ps ! 0]) else ps)"
  by pat_completeness auto
termination
  by (relation "measure (\<lambda>(plane_max, i, ps). plane_max - i)") auto

text \<open>
  The loop over the planes of the chroma description; \<open>True\<close> when it reaches its
  \<^verbatim>\<open>return VLC_ENOTSUP\<close>.
\<close>

function nonsquare_samples :: "vlc_chroma_description_t \<Rightarrow> nat \<Rightarrow> bool" where
  "nonsquare_samples chroma i =
     (if i < plane_count chroma
      then (if num (w_ratio (chroma_p chroma i)) * den (h_ratio (chroma_p chroma i))
               \<noteq> num (h_ratio (chroma_p chroma i)) * den (w_ratio (chroma_p chroma i))
            then True
            else nonsquare_samples chroma (i + 1))
      else False)"
  by pat_completeness auto
termination
  by (relation "measure (\<lambda>(chroma, i). plane_count chroma - i)") auto

text \<open>
  \<^verbatim>\<open>Open\<close> returns its code and the filter. The memory of \<^verbatim>\<open>sys\<close> belongs to the
  filter object from its allocation on; the filter sees it only once \<^verbatim>\<open>p_sys\<close> is set.
\<close>

definition Open :: "collaborators \<Rightarrow> filter_t \<Rightarrow> vlc_ret \<times> filter_t" where
  "Open env filt =
     (let src = fmt_in_video filt;
          dst = fmt_out_video filt;
          tr = video_format_GetTransform env (orientation src) (orientation dst)
      in
      if tr = TRANSFORM_IDENTITY then (VLC_ENOTSUP, filt)
      else
        let src_trans = video_format_TransformBy env src tr in
        if i_chroma dst \<noteq> i_chroma src_trans \<or>
           i_width dst \<noteq> i_width src_trans \<or>
           i_visible_width dst \<noteq> i_visible_width src_trans \<or>
           i_height dst \<noteq> i_height src_trans \<or>
           i_visible_height dst \<noteq> i_visible_height src_trans \<or>
           i_x_offset dst \<noteq> i_x_offset src_trans \<or>
           i_y_offset dst \<noteq> i_y_offset src_trans
        then (VLC_ENOTSUP, filt)
        else
          (case vlc_fourcc_GetChromaDescription env (i_chroma src) of
             None \<Rightarrow> (VLC_ENOTSUP, filt)
           | Some chroma \<Rightarrow>
               if \<not> vlc_obj_malloc_ok env then (VLC_ENOMEM, filt)
               else
                 let dsc = descriptions tr;
                     sys = \<lparr>transform = tr, plane = replicate (PICTURE_PLANE_MAX env) None\<rparr>
                 in
                 (case switch_pixel_size dsc (pixel_size chroma) of
                    None \<Rightarrow> (VLC_ENOTSUP, filt)
                  | Some cb \<Rightarrow>
                      let sys1 = sys\<lparr>plane := (plane sys)[0 := cb]\<rparr>;
                          sys2 = sys1\<lparr>plane := fill_planes (PICTURE_PLANE_MAX env) 1 (plane sys1)\<rparr>
                      in
                      if ORIENT_IS_SWAP tr \<and> nonsquare_samples chroma 0
                      then (VLC_ENOTSUP, filt)
                      else
                        let sys3 =
                              (if i_chroma src = VLC_CODEC_NV12 \<or> i_chroma src = VLC_CODEC_NV21
                               then sys2\<lparr>plane := (plane sys2)[1 := plane16 dsc]\<rparr>
                               else sys2)
                        in (VLC_SUCCESS, filt\<lparr>ops := Some filter_ops, p_sys := Some sys3\<rparr>))))"

section \<open>Formats and filters for the examples\<close>

text \<open>
  A format with no cropping, and a filter as \<^verbatim>\<open>Open\<close> leaves it as far as
  \<^verbatim>\<open>Mouse\<close> reads it.
\<close>

definition format_of ::
  "vlc_fourcc_t \<Rightarrow> c_unsigned \<Rightarrow> c_unsigned \<Rightarrow> nat \<Rightarrow> video_format_t" where
  "format_of c w h orient =
     \<lparr>i_chroma = c, i_width = w, i_height = h, i_x_offset = 0, i_y_offset = 0,
      i_visible_width = w, i_visible_height = h, orientation = orient\<rparr>"

definition filter_with :: "video_format_t \<Rightarrow> video_format_t \<Rightarrow> video_transform_t \<Rightarrow> filter_t" where
  "filter_with fin fout t =
     \<lparr>fmt_in_video = fin, fmt_out_video = fout,
      p_sys = Some \<lparr>transform = t, plane = []\<rparr>, ops = Some filter_ops\<rparr>"

text \<open>
  Modelled from the spec: \<^verbatim>\<open>video_format_TransformBy\<close> is declared outside
  \<^verbatim>\<open>orient.c\<close>. The spec applies the transform abstractly to the geometry of the source
  format: width and height are exchanged for the swap class. The theorems about
  \<^verbatim>\<open>Open\<close> hold for any such function; this one serves the examples.
\<close>

definition spec_TransformBy :: "video_format_t \<Rightarrow> video_transform_t \<Rightarrow> video_format_t" where
  "spec_TransformBy fmt t =
     (if ORIENT_IS_SWAP t
      then fmt\<lparr>i_width := i_height fmt, i_height := i_width fmt,
               i_visible_width := i_visible_height fmt, i_visible_height := i_visible_width fmt,
               i_x_offset := i_y_offset fmt, i_y_offset := i_x_offset fmt\<rparr>
      else fmt)"

text \<open>
  Example chroma descriptions: one full plane; three planes with chroma of half the
  horizontal density; two planes, the second with interleaved chroma.
\<close>

definition full_plane :: chroma_plane_t where
  "full_plane = \<lparr>w_ratio = \<lparr>num = 1, den = 1\<rparr>, h_ratio = \<lparr>num = 1, den = 1\<rparr>\<rparr>"

definition example_chroma :: "vlc_fourcc_t \<Rightarrow> vlc_chroma_description_t option" where
  "example_chroma c =
     (if c = ''GREY'' then Some \<lparr>plane_count = 1, chroma_p = (\<lambda>i. full_plane), pixel_size = 1\<rparr>
      else if c = ''I422''
      then Some \<lparr>plane_count = 3,
                 chroma_p = (\<lambda>i. if i = 0 then full_plane
                                  else \<lparr>w_ratio = \<lparr>num = 1, den = 2\<rparr>,
                                        h_ratio = \<lparr>num = 1, den = 1\<rparr>\<rparr>),
                 pixel_size = 1\<rparr>
      else if c = VLC_CODEC_NV12
      then Some \<lparr>plane_count = 2,
                 chroma_p = (\<lambda>i. if i = 0 then full_plane
                                  else \<lparr>w_ratio = \<lparr>num = 2, den = 2\<rparr>,
                                        h_ratio = \<lparr>num = 1, den = 2\<rparr>\<rparr>),
                 pixel_size = 1\<rparr>
      else None)"

text \<open>
  Example collaborators: the negotiation yields the transform \<open>t\<close> between two different
  orientations, allocation succeeds and a picture has at most 5 planes.
\<close>

definition example_env :: "video_transform_t \<Rightarrow> collaborators" where
  "example_env t =
     \<lparr>video_format_GetTransform = (\<lambda>a b. if a = b then TRANSFORM_IDENTITY else t),
      video_format_TransformBy = spec_TransformBy,
      vlc_fourcc_GetChromaDescription = example_chroma,
      vlc_obj_malloc_ok = True,
      PICTURE_PLANE_MAX = 5\<rparr>"

text \<open>A filter before \<^verbatim>\<open>Open\<close>.\<close>

definition unopened :: "video_format_t \<Rightarrow> video_format_t \<Rightarrow> filter_t" where
  "unopened fin fout = \<lparr>fmt_in_video = fin, fmt_out_video = fout, p_sys = None, ops = None\<rparr>"

text \<open>
  Example pictures with one plane of one-byte elements and no padding, and a filter as
  \<^verbatim>\<open>Open\<close> leaves it.
\<close>

definition example_plane :: "byte list \<Rightarrow> int \<Rightarrow> int \<Rightarrow> plane_t" where
  "example_plane xs pitch lines =
     \<lparr>p_pixels = mem_of_list xs, i_pitch = pitch, i_pixel_pitch = 1,
      i_visible_pitch = pitch, i_visible_lines = lines\<rparr>"

definition example_picture :: "byte list \<Rightarrow> int \<Rightarrow> int \<Rightarrow> nat \<Rightarrow> picture_t" where
  "example_picture xs pitch lines props =
     \<lparr>pic_p = [example_plane xs pitch lines], i_planes = 1, properties = props\<rparr>"

definition opened :: "video_format_t \<Rightarrow> video_format_t \<Rightarrow> filter_sys_t \<Rightarrow> filter_t" where
  "opened fin fout sys =
     \<lparr>fmt_in_video = fin, fmt_out_video = fout, p_sys = Some sys, ops = Some filter_ops\<rparr>"

section \<open>The statements of the specification\<close>

text \<open>
  The definitions of this section follow the words of the specification, not the code;
  the theorems compare them with the code.
\<close>

text \<open>The callback the catalogue holds for an element width.\<close>

fun plane_of :: "transform_description_t \<Rightarrow> bits \<Rightarrow> plane_transform_cb option" where
  "plane_of dsc B8 = plane8 dsc"
| "plane_of dsc B16 = plane16 dsc"
| "plane_of dsc B32 = plane32 dsc"

text \<open>
  The forward coordinate mapping: the destination position \<open>(dx, dy)\<close> (column, row) of the
  source element in column \<open>sx\<close> and row \<open>sy\<close> of a plane \<open>sw\<close> elements wide and
  \<open>sh\<close> rows high, read off the index formulas of section 4.1 of the specification.
\<close>

fun spec_forward :: "video_transform_t \<Rightarrow> int \<Rightarrow> int \<Rightarrow> int \<Rightarrow> int \<Rightarrow> int \<times> int" where
  "spec_forward TRANSFORM_IDENTITY sw sh sx sy = (sx, sy)"
| "spec_forward TRANSFORM_HFLIP sw sh sx sy = (sw - 1 - sx, sy)"
| "spec_forward TRANSFORM_VFLIP sw sh sx sy = (sx, sh - 1 - sy)"
| "spec_forward TRANSFORM_R180 sw sh sx sy = (sw - 1 - sx, sh - 1 - sy)"
| "spec_forward TRANSFORM_TRANSPOSE sw sh sx sy = (sy, sx)"
| "spec_forward TRANSFORM_R90 sw sh sx sy = (sh - 1 - sy, sx)"
| "spec_forward TRANSFORM_R270 sw sh sx sy = (sy, sw - 1 - sx)"
| "spec_forward TRANSFORM_ANTI_TRANSPOSE sw sh sx sy = (sh - 1 - sy, sw - 1 - sx)"

text \<open>The dimensions of the destination plane: exchanged for the swap class.\<close>

definition spec_dst_width :: "video_transform_t \<Rightarrow> int \<Rightarrow> int \<Rightarrow> int" where
  "spec_dst_width t sw sh = (if ORIENT_IS_SWAP t then sh else sw)"

definition spec_dst_height :: "video_transform_t \<Rightarrow> int \<Rightarrow> int \<Rightarrow> int" where
  "spec_dst_height t sw sh = (if ORIENT_IS_SWAP t then sw else sh)"

text \<open>The table of section 4.4; IDENTITY has no row.\<close>

fun spec_MapPointerBack ::
  "video_transform_t \<Rightarrow> int \<Rightarrow> int \<Rightarrow> int \<Rightarrow> int \<Rightarrow> (int \<times> int) option" where
  "spec_MapPointerBack TRANSFORM_HFLIP dw dh dx dy = Some (dw - 1 - dx, dy)"
| "spec_MapPointerBack TRANSFORM_VFLIP dw dh dx dy = Some (dx, dh - 1 - dy)"
| "spec_MapPointerBack TRANSFORM_R180 dw dh dx dy = Some (dw - 1 - dx, dh - 1 - dy)"
| "spec_MapPointerBack TRANSFORM_TRANSPOSE dw dh dx dy = Some (dy, dx)"
| "spec_MapPointerBack TRANSFORM_R90 dw dh dx dy = Some (dy, dw - 1 - dx)"
| "spec_MapPointerBack TRANSFORM_R270 dw dh dx dy = Some (dh - 1 - dy, dx)"
| "spec_MapPointerBack TRANSFORM_ANTI_TRANSPOSE dw dh dx dy = Some (dh - 1 - dy, dw - 1 - dx)"
| "spec_MapPointerBack TRANSFORM_IDENTITY dw dh dx dy = None"

text \<open>
  The five checks of section 4.5, in the words of the claim: the transform is not the
  identity; the transformed source geometry equals the destination format in chroma,
  width, visible width, height, visible height and both offsets; the chroma description
  resolves; for a swap-class transform every plane has a 1:1 ratio of horizontal to
  vertical sample density; the pixel size of the primary plane is 1, 2 or 4. The ratio of a
  plane is 1:1 when its horizontal fraction \<open>num w / den w\<close> equals its vertical fraction
  \<open>num h / den h\<close>, stated here without division.
\<close>

definition spec_same_geometry :: "video_format_t \<Rightarrow> video_format_t \<Rightarrow> bool" where
  "spec_same_geometry dst src_trans \<longleftrightarrow>
     i_chroma dst = i_chroma src_trans \<and>
     i_width dst = i_width src_trans \<and>
     i_visible_width dst = i_visible_width src_trans \<and>
     i_height dst = i_height src_trans \<and>
     i_visible_height dst = i_visible_height src_trans \<and>
     i_x_offset dst = i_x_offset src_trans \<and>
     i_y_offset dst = i_y_offset src_trans"

definition spec_square :: "chroma_plane_t \<Rightarrow> bool" where
  "spec_square cp \<longleftrightarrow>
     num (w_ratio cp) * den (h_ratio cp) = num (h_ratio cp) * den (w_ratio cp)"

definition spec_CompatibilityGate :: "collaborators \<Rightarrow> filter_t \<Rightarrow> bool" where
  "spec_CompatibilityGate env filt \<longleftrightarrow>
     (let src = fmt_in_video filt;
          dst = fmt_out_video filt;
          t = video_format_GetTransform env (orientation src) (orientation dst)
      in t \<noteq> TRANSFORM_IDENTITY \<and>
         spec_same_geometry dst (video_format_TransformBy env src t) \<and>
         (case vlc_fourcc_GetChromaDescription env (i_chroma src) of
            None \<Rightarrow> False
          | Some chroma \<Rightarrow>
              (ORIENT_IS_SWAP t \<longrightarrow>
                 (\<forall>i \<in> {0..<plane_count chroma}. spec_square (chroma_p chroma i))) \<and>
              pixel_size chroma \<in> {1, 2, 4}))"

section \<open>Properties of the plane primitives\<close>

declare vflip_y.simps [simp del] hflip_x.simps [simp del] hflip_y.simps [simp del]
  transpose_x.simps [simp del] transpose_y.simps [simp del] ctz.simps [simp del]
  fill_planes.simps [simp del] nonsquare_samples.simps [simp del] Filter_planes.simps [simp del]


lemma sint_of_int: "in_int k \<Longrightarrow> sint (word_of_int k :: c_int) = k"
  unfolding in_int_def
  by (simp add: signed_take_bit_int_eq_self_iff sint_sbintrunc' signed_of_int)

lemma uint_size_t: "0 \<le> k \<Longrightarrow> k < 2 ^ 31 \<Longrightarrow> uint (word_of_int k :: size_t) = k"
  by (simp add: uint_word_of_int take_bit_int_eq_self)

lemma shift_fits:
  assumes "0 \<le> w" "w * 2 ^ n < 2 ^ 31"
  shows "uint (scast (push_bit n (word_of_int w :: c_int)) :: size_t) = w * 2 ^ n"
proof -
  have nn: "0 \<le> w * 2 ^ n" using assms by simp
  have p: "push_bit n (word_of_int w :: c_int) = word_of_int (w * 2 ^ n)"
    by (simp add: push_bit_eq_mult)
  have s: "sint (word_of_int (w * 2 ^ n) :: c_int) = w * 2 ^ n"
    using nn assms(2) by (intro sint_of_int) (simp add: in_int_def)
  have "(scast (word_of_int (w * 2 ^ n) :: c_int) :: size_t) = word_of_int (w * 2 ^ n)"
    unfolding scast_eq s ..
  moreover have "uint (word_of_int (w * 2 ^ n) :: size_t) = w * 2 ^ n"
    using nn assms(2) by (rule uint_size_t)
  ultimately show ?thesis unfolding p by simp
qed

lemma esize_pos: "0 < esize b"
  by (cases b) (simp_all add: esize_def)

lemma dstm_memcpy_in:
  "d \<le> a \<Longrightarrow> a < d + n \<Longrightarrow> dstm (memcpy srcm d s n st) a = srcm (s + (a - d))"
  by (simp add: memcpy_def)

lemma dstm_memcpy_out:
  "\<not> (d \<le> a \<and> a < d + n) \<Longrightarrow> dstm (memcpy srcm d s n st) a = dstm st a"
  by (auto simp add: memcpy_def)

lemma rds_memcpy: "rds (memcpy srcm d s n st) = rds st \<union> {s..<s + n}"
  by (simp add: memcpy_def)

lemma wrs_memcpy: "wrs (memcpy srcm d s n st) = wrs st \<union> {d..<d + n}"
  by (simp add: memcpy_def)

lemma dstm_assign_in:
  assumes "0 \<le> k" "k < esize b"
  shows "dstm (assign b srcm dp i sp j st) (dp + i * esize b + k) = srcm (sp + j * esize b + k)"
proof -
  have "dstm (assign b srcm dp i sp j st) (dp + i * esize b + k) =
        srcm (sp + j * esize b + (dp + i * esize b + k - (dp + i * esize b)))"
    unfolding assign_def using assms by (intro dstm_memcpy_in) auto
  then show ?thesis by simp
qed

lemma dstm_assign_out:
  "a \<notin> {dp + i * esize b ..< dp + i * esize b + esize b} \<Longrightarrow>
   dstm (assign b srcm dp i sp j st) a = dstm st a"
  unfolding assign_def by (rule dstm_memcpy_out) simp

lemma rds_assign:
  "rds (assign b srcm dp i sp j st) = rds st \<union> {sp + j * esize b ..< sp + j * esize b + esize b}"
  by (simp add: assign_def rds_memcpy)

lemma wrs_assign:
  "wrs (assign b srcm dp i sp j st) = wrs st \<union> {dp + i * esize b ..< dp + i * esize b + esize b}"
  by (simp add: assign_def wrs_memcpy)

lemma int_range_step: "x < (n::int) \<Longrightarrow> {x..<n} = insert x {x + 1..<n}"
  by auto

lemma hflip_x_wrs:
  "wrs (hflip_x b srcm width sp dp x st) =
     wrs st \<union> (\<Union>i\<in>{x..<width}. {dp - i * esize b ..< dp - i * esize b + esize b})"
proof (induction b srcm width sp dp x st rule: hflip_x.induct)
  case (1 b srcm width sp dp x st)
  show ?case
  proof (cases "x < width")
    case True
    then have split: "{x..<width} = insert x {x + 1..<width}" by auto
    show ?thesis
      using True 1
      apply (subst hflip_x.simps)
      apply (simp add: split assign_def memcpy_def)
      apply (auto)
      done
  next
    case False
    then show ?thesis by (subst hflip_x.simps) simp
  qed
qed


lemma hflip_x_rds:
  "rds (hflip_x b srcm width sp dp x st) =
     rds st \<union> (\<Union>i\<in>{x..<width}. {sp + i * esize b ..< sp + i * esize b + esize b})"
proof (induction b srcm width sp dp x st rule: hflip_x.induct)
  case (1 b srcm width sp dp x st)
  show ?case
  proof (cases "x < width")
    case True
    then have split: "{x..<width} = insert x {x + 1..<width}" by auto
    show ?thesis
      using True 1
      apply (subst hflip_x.simps)
      apply (simp add: split assign_def memcpy_def)
      apply (auto)
      done
  next
    case False
    then show ?thesis by (subst hflip_x.simps) simp
  qed
qed

lemma hflip_x_frame:
  "a \<notin> (\<Union>i\<in>{x..<width}. {dp - i * esize b ..< dp - i * esize b + esize b}) \<Longrightarrow>
   dstm (hflip_x b srcm width sp dp x st) a = dstm st a"
proof (induction b srcm width sp dp x st rule: hflip_x.induct)
  case (1 b srcm width sp dp x st)
  show ?case
  proof (cases "x < width")
    case True
    then have split: "{x..<width} = insert x {x + 1..<width}" by auto
    from "1.prems" have rest: "a \<notin> (\<Union>i\<in>{x + 1..<width}. {dp - i * esize b ..< dp - i * esize b + esize b})"
      and here: "a \<notin> {dp - x * esize b ..< dp - x * esize b + esize b}"
      unfolding split by blast+
    have "dstm (hflip_x b srcm width sp dp x st) a =
          dstm (hflip_x b srcm width sp dp (x + 1) (assign b srcm dp (- x) sp x st)) a"
      using True by (subst hflip_x.simps) simp
    also have "\<dots> = dstm (assign b srcm dp (- x) sp x st) a"
      using "1.IH" [OF True rest] .
    also have "\<dots> = dstm st a"
      by (rule dstm_assign_out) (use here in simp)
    finally show ?thesis .
  next
    case False
    then show ?thesis by (subst hflip_x.simps) simp
  qed
qed

lemma mult_step_le: "(0::int) < w \<Longrightarrow> x < i \<Longrightarrow> x * w + w \<le> i * w"
proof -
  assume w: "0 < w" and xi: "x < i"
  then have "(x + 1) * w \<le> i * w" by (intro mult_right_mono) auto
  then show ?thesis by (simp add: algebra_simps)
qed

lemma hflip_x_val:
  "x \<le> i \<Longrightarrow> i < width \<Longrightarrow> 0 \<le> k \<Longrightarrow> k < esize b \<Longrightarrow>
   dstm (hflip_x b srcm width sp dp x st) (dp - i * esize b + k) = srcm (sp + i * esize b + k)"
proof (induction b srcm width sp dp x st rule: hflip_x.induct)
  case (1 b srcm width sp dp x st)
  from "1.prems" have lt: "x < width" by simp
  have unf: "hflip_x b srcm width sp dp x st =
             hflip_x b srcm width sp dp (x + 1) (assign b srcm dp (- x) sp x st)"
    using lt by (subst hflip_x.simps) simp
  show ?case
  proof (cases "i = x")
    case True
    have out: "dp - x * esize b + k \<notin>
          (\<Union>j\<in>{x + 1..<width}. {dp - j * esize b ..< dp - j * esize b + esize b})"
    proof
      assume "dp - x * esize b + k \<in>
          (\<Union>j\<in>{x + 1..<width}. {dp - j * esize b ..< dp - j * esize b + esize b})"
      then obtain j where "j \<in> {x + 1..<width}"
        and "dp - x * esize b + k \<in> {dp - j * esize b ..< dp - j * esize b + esize b}"
        by blast
      then have j: "x < j" and lo: "dp - x * esize b + k < dp - j * esize b + esize b"
        by simp_all
      from mult_step_le [OF esize_pos j] have "x * esize b + esize b \<le> j * esize b" .
      with lo "1.prems" show False by simp
    qed
    have "dstm (hflip_x b srcm width sp dp x st) (dp - x * esize b + k) =
          dstm (assign b srcm dp (- x) sp x st) (dp - x * esize b + k)"
      unfolding unf by (rule hflip_x_frame [OF out])
    also have "\<dots> = srcm (sp + x * esize b + k)"
      using dstm_assign_in [OF "1.prems"(3,4), of srcm dp "- x" sp x st] by simp
    finally show ?thesis using True by simp
  next
    case False
    with "1.prems" have "x + 1 \<le> i" by simp
    from "1.IH" [OF lt this "1.prems"(2-4)] show ?thesis unfolding unf .
  qed
qed


lemma row_shift: "dp + d + (r - (y + 1)) * d = dp + (r - y) * (d::int)"
  by (simp add: algebra_simps)

lemma hflip_y_wrs:
  "wrs (hflip_y b srcm width height ss ds sp dp y st) =
     wrs st \<union> (\<Union>r\<in>{y..<height}. \<Union>i\<in>{0..<width}.
        {dp + (r - y) * (ds * esize b) - i * esize b ..<
         dp + (r - y) * (ds * esize b) - i * esize b + esize b})"
proof (induction b srcm width height ss ds sp dp y st rule: hflip_y.induct)
  case (1 b srcm width height ss ds sp dp y st)
  show ?case
  proof (cases "y < height")
    case True
    have unf: "hflip_y b srcm width height ss ds sp dp y st =
        hflip_y b srcm width height ss ds (sp + ss * esize b) (dp + ds * esize b) (y + 1)
          (hflip_x b srcm width sp dp 0 st)"
      using True by (subst hflip_y.simps) simp
    show ?thesis
      unfolding unf "1.IH" [OF True] hflip_x_wrs int_range_step [OF True] row_shift
      by (simp add: Un_assoc)
  next
    case False
    then show ?thesis by (subst hflip_y.simps) simp
  qed
qed

lemma hflip_y_rds:
  "rds (hflip_y b srcm width height ss ds sp dp y st) =
     rds st \<union> (\<Union>r\<in>{y..<height}. \<Union>i\<in>{0..<width}.
        {sp + (r - y) * (ss * esize b) + i * esize b ..<
         sp + (r - y) * (ss * esize b) + i * esize b + esize b})"
proof (induction b srcm width height ss ds sp dp y st rule: hflip_y.induct)
  case (1 b srcm width height ss ds sp dp y st)
  show ?case
  proof (cases "y < height")
    case True
    have unf: "hflip_y b srcm width height ss ds sp dp y st =
        hflip_y b srcm width height ss ds (sp + ss * esize b) (dp + ds * esize b) (y + 1)
          (hflip_x b srcm width sp dp 0 st)"
      using True by (subst hflip_y.simps) simp
    show ?thesis
      unfolding unf "1.IH" [OF True] hflip_x_rds int_range_step [OF True] row_shift
      by (simp add: Un_assoc)
  next
    case False
    then show ?thesis by (subst hflip_y.simps) simp
  qed
qed

lemma hflip_y_frame:
  "a \<notin> (\<Union>r\<in>{y..<height}. \<Union>i\<in>{0..<width}.
        {dp + (r - y) * (ds * esize b) - i * esize b ..<
         dp + (r - y) * (ds * esize b) - i * esize b + esize b}) \<Longrightarrow>
   dstm (hflip_y b srcm width height ss ds sp dp y st) a = dstm st a"
proof (induction b srcm width height ss ds sp dp y st rule: hflip_y.induct)
  case (1 b srcm width height ss ds sp dp y st)
  show ?case
  proof (cases "y < height")
    case True
    have unf: "hflip_y b srcm width height ss ds sp dp y st =
        hflip_y b srcm width height ss ds (sp + ss * esize b) (dp + ds * esize b) (y + 1)
          (hflip_x b srcm width sp dp 0 st)"
      using True by (subst hflip_y.simps) simp
    from "1.prems" have
      rest: "a \<notin> (\<Union>r\<in>{y + 1..<height}. \<Union>i\<in>{0..<width}.
        {dp + ds * esize b + (r - (y + 1)) * (ds * esize b) - i * esize b ..<
         dp + ds * esize b + (r - (y + 1)) * (ds * esize b) - i * esize b + esize b})"
      and here: "a \<notin> (\<Union>i\<in>{0..<width}. {dp - i * esize b ..< dp - i * esize b + esize b})"
      unfolding int_range_step [OF True] row_shift by simp_all
    show ?thesis
      unfolding unf using "1.IH" [OF True rest] hflip_x_frame [OF here] by simp
  next
    case False
    then show ?thesis by (subst hflip_y.simps) simp
  qed
qed


lemma rows_apart:
  fixes w :: int
  assumes w: "0 < w" and D: "width * w \<le> D"
    and i: "0 \<le> i" "i < width" and k: "k < w"
    and q: "1 \<le> q" and i': "i' < width"
  shows "dp - i * w + k < dp + q * D - i' * w"
proof -
  have a: "i' * w + w \<le> width * w" using mult_step_le [OF w i'] .
  have b: "0 \<le> i * w" using w i by simp
  have "0 \<le> width * w" using w i by simp
  then have "0 \<le> D" using D by simp
  then have "1 * D \<le> q * D" using q by (intro mult_right_mono) auto
  then show ?thesis using a b D k by simp
qed

lemma hflip_y_val:
  "width * esize b \<le> ds * esize b \<Longrightarrow> y \<le> r \<Longrightarrow> r < height \<Longrightarrow>
   0 \<le> i \<Longrightarrow> i < width \<Longrightarrow> 0 \<le> k \<Longrightarrow> k < esize b \<Longrightarrow>
   dstm (hflip_y b srcm width height ss ds sp dp y st)
        (dp + (r - y) * (ds * esize b) - i * esize b + k) =
   srcm (sp + (r - y) * (ss * esize b) + i * esize b + k)"
proof (induction b srcm width height ss ds sp dp y st rule: hflip_y.induct)
  case (1 b srcm width height ss ds sp dp y st)
  from "1.prems" have lt: "y < height" by simp
  have unf: "hflip_y b srcm width height ss ds sp dp y st =
      hflip_y b srcm width height ss ds (sp + ss * esize b) (dp + ds * esize b) (y + 1)
        (hflip_x b srcm width sp dp 0 st)"
    using lt by (subst hflip_y.simps) simp
  show ?case
  proof (cases "r = y")
    case True
    have out: "dp - i * esize b + k \<notin> (\<Union>r\<in>{y + 1..<height}. \<Union>i\<in>{0..<width}.
        {dp + ds * esize b + (r - (y + 1)) * (ds * esize b) - i * esize b ..<
         dp + ds * esize b + (r - (y + 1)) * (ds * esize b) - i * esize b + esize b})"
    proof
      assume "dp - i * esize b + k \<in> (\<Union>r\<in>{y + 1..<height}. \<Union>i\<in>{0..<width}.
        {dp + ds * esize b + (r - (y + 1)) * (ds * esize b) - i * esize b ..<
         dp + ds * esize b + (r - (y + 1)) * (ds * esize b) - i * esize b + esize b})"
      then obtain r' i' where "r' \<in> {y + 1..<height}" "i' \<in> {0..<width}"
        and mem: "dp - i * esize b + k \<in>
          {dp + (r' - y) * (ds * esize b) - i' * esize b ..<
           dp + (r' - y) * (ds * esize b) - i' * esize b + esize b}"
        unfolding row_shift by blast
      then have q: "1 \<le> r' - y" and i': "i' < width" by simp_all
      from rows_apart [OF esize_pos "1.prems"(1) "1.prems"(4,5) "1.prems"(7) q i', of dp] mem
      show False by simp
    qed
    have "dstm (hflip_y b srcm width height ss ds sp dp y st) (dp - i * esize b + k) =
          dstm (hflip_x b srcm width sp dp 0 st) (dp - i * esize b + k)"
      unfolding unf by (rule hflip_y_frame [OF out])
    also have "\<dots> = srcm (sp + i * esize b + k)"
      using "1.prems" by (intro hflip_x_val) auto
    finally show ?thesis using True by simp
  next
    case False
    with "1.prems" have "y + 1 \<le> r" by simp
    from "1.IH" [OF lt "1.prems"(1) this "1.prems"(3-7)] show ?thesis
      unfolding unf row_shift .
  qed
qed


lemma sdiv_exact: "0 < w \<Longrightarrow> w dvd s \<Longrightarrow> (s sdiv w) * w = (s::int)"
  by (auto simp add: signed_divide_int_def sgn_if elim!: dvdE)

lemma nbits_div: "nbits b div 8 = esize b"
  by (simp add: esize_def)

lemma stride_elems: "esize b dvd s \<Longrightarrow> (s sdiv (nbits b div 8)) * esize b = s"
  unfolding nbits_div by (rule sdiv_exact [OF esize_pos])

lemma hflip_px:
  assumes dv: "esize b dvd dst_stride" "esize b dvd src_stride"
    and wide: "width * esize b \<le> dst_stride"
    and row: "0 \<le> row" "row < height" and col: "0 \<le> x" "x < width"
    and k: "0 \<le> k" "k < esize b"
  shows "dstm (hflip_bits b dst dst_stride src src_stride width height srcm st)
           (dst + row * dst_stride + x * esize b + k) =
         srcm (src + row * src_stride + (width - 1 - x) * esize b + k)"
proof -
  let ?ds = "dst_stride sdiv (nbits b div 8)" and ?ss = "src_stride sdiv (nbits b div 8)"
  have D: "?ds * esize b = dst_stride" and S: "?ss * esize b = src_stride"
    using dv by (simp_all add: stride_elems)
  have i: "0 \<le> width - 1 - x" "width - 1 - x < width" using col by simp_all
  have addr: "dst + row * dst_stride + x * esize b + k =
      dst + (width - 1) * esize b + row * dst_stride - (width - 1 - x) * esize b + k"
    by (simp add: algebra_simps)
  have "dstm (hflip_y b srcm width height ?ss ?ds src (dst + (width - 1) * esize b) 0 st)
          (dst + (width - 1) * esize b + (row - 0) * (?ds * esize b) - (width - 1 - x) * esize b + k) =
        srcm (src + (row - 0) * (?ss * esize b) + (width - 1 - x) * esize b + k)"
    using wide row i k by (intro hflip_y_val) (simp_all add: D)
  then show ?thesis
    unfolding hflip_bits_def Let_def addr D S diff_zero .
qed

lemma row_shift_back: "dp - d - (r - (y + 1) + 1) * d = dp - (r - y + 1) * (d::int)"
  by (simp add: algebra_simps)

lemma vflip_y_wrs:
  "wrs (vflip_y srcm height vp ss ds sp dp y st) =
     wrs st \<union> (\<Union>r\<in>{y..<height}. {dp - (r - y + 1) * ds ..< dp - (r - y + 1) * ds + vp})"
proof (induction srcm height vp ss ds sp dp y st rule: vflip_y.induct)
  case (1 srcm height vp ss ds sp dp y st)
  show ?case
  proof (cases "y < height")
    case True
    have unf: "vflip_y srcm height vp ss ds sp dp y st =
        vflip_y srcm height vp ss ds (sp + ss) (dp - ds) (y + 1) (memcpy srcm (dp - ds) sp vp st)"
      using True by (subst vflip_y.simps) simp
    show ?thesis
      unfolding unf "1.IH" [OF True] wrs_memcpy int_range_step [OF True] row_shift_back
      by (simp add: Un_assoc)
  next
    case False
    then show ?thesis by (subst vflip_y.simps) simp
  qed
qed

lemma vflip_y_rds:
  "rds (vflip_y srcm height vp ss ds sp dp y st) =
     rds st \<union> (\<Union>r\<in>{y..<height}. {sp + (r - y) * ss ..< sp + (r - y) * ss + vp})"
proof (induction srcm height vp ss ds sp dp y st rule: vflip_y.induct)
  case (1 srcm height vp ss ds sp dp y st)
  show ?case
  proof (cases "y < height")
    case True
    have unf: "vflip_y srcm height vp ss ds sp dp y st =
        vflip_y srcm height vp ss ds (sp + ss) (dp - ds) (y + 1) (memcpy srcm (dp - ds) sp vp st)"
      using True by (subst vflip_y.simps) simp
    show ?thesis
      unfolding unf "1.IH" [OF True] rds_memcpy int_range_step [OF True] row_shift
      by (simp add: Un_assoc)
  next
    case False
    then show ?thesis by (subst vflip_y.simps) simp
  qed
qed

lemma vflip_y_frame:
  "a \<notin> (\<Union>r\<in>{y..<height}. {dp - (r - y + 1) * ds ..< dp - (r - y + 1) * ds + vp}) \<Longrightarrow>
   dstm (vflip_y srcm height vp ss ds sp dp y st) a = dstm st a"
proof (induction srcm height vp ss ds sp dp y st rule: vflip_y.induct)
  case (1 srcm height vp ss ds sp dp y st)
  show ?case
  proof (cases "y < height")
    case True
    have unf: "vflip_y srcm height vp ss ds sp dp y st =
        vflip_y srcm height vp ss ds (sp + ss) (dp - ds) (y + 1) (memcpy srcm (dp - ds) sp vp st)"
      using True by (subst vflip_y.simps) simp
    from "1.prems" have
      rest: "a \<notin> (\<Union>r\<in>{y + 1..<height}.
          {dp - ds - (r - (y + 1) + 1) * ds ..< dp - ds - (r - (y + 1) + 1) * ds + vp})"
      and here: "\<not> (dp - ds \<le> a \<and> a < dp - ds + vp)"
      unfolding int_range_step [OF True] row_shift_back by simp_all
    show ?thesis
      unfolding unf using "1.IH" [OF True rest] dstm_memcpy_out [OF here] by simp
  next
    case False
    then show ?thesis by (subst vflip_y.simps) simp
  qed
qed

lemma vflip_y_val:
  "vp \<le> ds \<Longrightarrow> y \<le> r \<Longrightarrow> r < height \<Longrightarrow> 0 \<le> k \<Longrightarrow> k < vp \<Longrightarrow>
   dstm (vflip_y srcm height vp ss ds sp dp y st) (dp - (r - y + 1) * ds + k) =
   srcm (sp + (r - y) * ss + k)"
proof (induction srcm height vp ss ds sp dp y st rule: vflip_y.induct)
  case (1 srcm height vp ss ds sp dp y st)
  from "1.prems" have lt: "y < height" by simp
  have unf: "vflip_y srcm height vp ss ds sp dp y st =
      vflip_y srcm height vp ss ds (sp + ss) (dp - ds) (y + 1) (memcpy srcm (dp - ds) sp vp st)"
    using lt by (subst vflip_y.simps) simp
  show ?case
  proof (cases "r = y")
    case True
    have out: "dp - ds + k \<notin> (\<Union>r\<in>{y + 1..<height}.
          {dp - ds - (r - (y + 1) + 1) * ds ..< dp - ds - (r - (y + 1) + 1) * ds + vp})"
    proof
      assume "dp - ds + k \<in> (\<Union>r\<in>{y + 1..<height}.
          {dp - ds - (r - (y + 1) + 1) * ds ..< dp - ds - (r - (y + 1) + 1) * ds + vp})"
      then obtain r' where "r' \<in> {y + 1..<height}"
        and mem: "dp - ds + k \<in> {dp - (r' - y + 1) * ds ..< dp - (r' - y + 1) * ds + vp}"
        unfolding row_shift_back by blast
      then have q: "2 \<le> r' - y + 1" by simp
      have "0 \<le> ds" using "1.prems" by simp
      then have "2 * ds \<le> (r' - y + 1) * ds" using q by (intro mult_right_mono) auto
      with mem "1.prems" show False by simp
    qed
    have "dstm (vflip_y srcm height vp ss ds sp dp y st) (dp - ds + k) =
          dstm (memcpy srcm (dp - ds) sp vp st) (dp - ds + k)"
      unfolding unf by (rule vflip_y_frame [OF out])
    also have "\<dots> = srcm (sp + (dp - ds + k - (dp - ds)))"
      using "1.prems" by (intro dstm_memcpy_in) auto
    finally show ?thesis using True by simp
  next
    case False
    with "1.prems" have "y + 1 \<le> r" by simp
    from "1.IH" [OF lt "1.prems"(1) this "1.prems"(3-5)] show ?thesis
      unfolding unf row_shift row_shift_back .
  qed
qed


lemma ctz_esize: "2 ^ ctz (nat (nbits b div 8)) = esize b"
  by (cases b) (simp_all add: esize_def ctz.simps)

lemma vflip_pitch:
  assumes "0 \<le> width" "width * esize b < 2 ^ 31"
  shows "uint (scast (push_bit (ctz (nat (nbits b div 8))) (word_of_int width :: c_int)) :: size_t) =
         width * esize b"
  using shift_fits [of width "ctz (nat (nbits b div 8))"] assms unfolding ctz_esize .

text \<open>
  A row size outside \<^verbatim>\<open>int\<close> wraps: \<^verbatim>\<open>vflip_32\<close> with a width of \<open>2 ^ 30 + 1\<close>
  elements copies 4 bytes of each row.
\<close>

lemma vflip_pitch_wraps:
  "uint (scast (push_bit (ctz (nat (nbits B32 div 8))) (word_of_int (2 ^ 30 + 1) :: c_int)) :: size_t)
   = 4"
  by (simp add: ctz.simps)

lemma vflip_row:
  assumes nonneg: "0 \<le> width" and fits: "width * esize b < 2 ^ 31"
    and wide: "width * esize b \<le> dst_stride"
    and row: "0 \<le> row" "row < height" and k: "0 \<le> k" "k < width * esize b"
  shows "dstm (vflip_bits b dst dst_stride src src_stride width height srcm st)
           (dst + (height - 1 - row) * dst_stride + k) =
         srcm (src + row * src_stride + k)"
proof -
  have addr: "dst + (height - 1 - row) * dst_stride + k =
      dst + dst_stride * height - (row - 0 + 1) * dst_stride + k"
    by (simp add: algebra_simps)
  have "dstm (vflip_y srcm height (width * esize b) src_stride dst_stride src
                (dst + dst_stride * height) 0 st)
          (dst + dst_stride * height - (row - 0 + 1) * dst_stride + k) =
        srcm (src + (row - 0) * src_stride + k)"
    using wide row k by (intro vflip_y_val) simp_all
  then show ?thesis
    unfolding vflip_bits_def vflip_def Let_def vflip_pitch [OF nonneg fits] addr diff_zero .
qed

lemma grid_apart:
  fixes w :: int
  assumes w: "0 < w" and D: "h * w \<le> \<bar>D\<bar>"
    and y: "0 \<le> y" "y < h" and y': "0 \<le> y'" "y' < h"
    and k: "0 \<le> k" "k < w"
    and ne: "y \<noteq> y' \<or> x \<noteq> x'"
  shows "y * w + x * D + k \<notin> {y' * w + x' * D ..< y' * w + x' * D + w}"
proof (cases "x = x'")
  case True
  with ne have "y < y' \<or> y' < y" by auto
  then show ?thesis
  proof
    assume "y < y'"
    from mult_step_le [OF w this] k True show ?thesis by simp
  next
    assume "y' < y"
    from mult_step_le [OF w this] k True show ?thesis by simp
  qed
next
  case False
  have yw: "y * w + w \<le> h * w" and yw': "y' * w + w \<le> h * w"
    using mult_step_le [OF w y(2)] mult_step_le [OF w y'(2)] by simp_all
  have y0: "0 \<le> y * w" and y0': "0 \<le> y' * w" using w y y' by simp_all
  have diff: "x * D - x' * D = (x - x') * D" by (simp add: algebra_simps)
  have "1 \<le> \<bar>x - x'\<bar>" using False by simp
  then have "1 * \<bar>D\<bar> \<le> \<bar>x - x'\<bar> * \<bar>D\<bar>" by (intro mult_right_mono) auto
  then have "\<bar>D\<bar> \<le> \<bar>(x - x') * D\<bar>" by (simp add: abs_mult)
  with D have "h * w \<le> \<bar>(x - x') * D\<bar>" by simp
  then have "h * w \<le> x * D - x' * D \<or> x * D - x' * D \<le> - (h * w)"
    unfolding diff by linarith
  then show ?thesis
  proof
    assume "h * w \<le> x * D - x' * D"
    with yw' y0 k show ?thesis by simp
  next
    assume "x * D - x' * D \<le> - (h * w)"
    with yw y0' k show ?thesis by simp
  qed
qed

lemma transpose_x_wrs:
  "wrs (transpose_x b srcm width ds sp dp x st) =
     wrs st \<union> (\<Union>i\<in>{x..<width}. {dp + i * ds * esize b ..< dp + i * ds * esize b + esize b})"
proof (induction b srcm width ds sp dp x st rule: transpose_x.induct)
  case (1 b srcm width ds sp dp x st)
  show ?case
  proof (cases "x < width")
    case True
    have unf: "transpose_x b srcm width ds sp dp x st =
        transpose_x b srcm width ds sp dp (x + 1) (assign b srcm dp (x * ds) sp x st)"
      using True by (subst transpose_x.simps) simp
    show ?thesis
      unfolding unf "1.IH" [OF True] wrs_assign int_range_step [OF True]
      by (simp add: Un_assoc)
  next
    case False
    then show ?thesis by (subst transpose_x.simps) simp
  qed
qed

lemma transpose_x_rds:
  "rds (transpose_x b srcm width ds sp dp x st) =
     rds st \<union> (\<Union>i\<in>{x..<width}. {sp + i * esize b ..< sp + i * esize b + esize b})"
proof (induction b srcm width ds sp dp x st rule: transpose_x.induct)
  case (1 b srcm width ds sp dp x st)
  show ?case
  proof (cases "x < width")
    case True
    have unf: "transpose_x b srcm width ds sp dp x st =
        transpose_x b srcm width ds sp dp (x + 1) (assign b srcm dp (x * ds) sp x st)"
      using True by (subst transpose_x.simps) simp
    show ?thesis
      unfolding unf "1.IH" [OF True] rds_assign int_range_step [OF True]
      by (simp add: Un_assoc)
  next
    case False
    then show ?thesis by (subst transpose_x.simps) simp
  qed
qed

lemma transpose_x_frame:
  "a \<notin> (\<Union>i\<in>{x..<width}. {dp + i * ds * esize b ..< dp + i * ds * esize b + esize b}) \<Longrightarrow>
   dstm (transpose_x b srcm width ds sp dp x st) a = dstm st a"
proof (induction b srcm width ds sp dp x st rule: transpose_x.induct)
  case (1 b srcm width ds sp dp x st)
  show ?case
  proof (cases "x < width")
    case True
    have unf: "transpose_x b srcm width ds sp dp x st =
        transpose_x b srcm width ds sp dp (x + 1) (assign b srcm dp (x * ds) sp x st)"
      using True by (subst transpose_x.simps) simp
    from "1.prems" have
      rest: "a \<notin> (\<Union>i\<in>{x + 1..<width}.
          {dp + i * ds * esize b ..< dp + i * ds * esize b + esize b})"
      and here: "a \<notin> {dp + x * ds * esize b ..< dp + x * ds * esize b + esize b}"
      unfolding int_range_step [OF True] by blast+
    show ?thesis
      unfolding unf using "1.IH" [OF True rest] dstm_assign_out [OF here] by simp
  next
    case False
    then show ?thesis by (subst transpose_x.simps) simp
  qed
qed

lemma transpose_x_val:
  "esize b \<le> \<bar>ds * esize b\<bar> \<Longrightarrow> x \<le> i \<Longrightarrow> i < width \<Longrightarrow> 0 \<le> k \<Longrightarrow> k < esize b \<Longrightarrow>
   dstm (transpose_x b srcm width ds sp dp x st) (dp + i * ds * esize b + k) =
   srcm (sp + i * esize b + k)"
proof (induction b srcm width ds sp dp x st rule: transpose_x.induct)
  case (1 b srcm width ds sp dp x st)
  from "1.prems" have lt: "x < width" by simp
  have unf: "transpose_x b srcm width ds sp dp x st =
      transpose_x b srcm width ds sp dp (x + 1) (assign b srcm dp (x * ds) sp x st)"
    using lt by (subst transpose_x.simps) simp
  show ?case
  proof (cases "i = x")
    case True
    have out: "dp + x * ds * esize b + k \<notin> (\<Union>j\<in>{x + 1..<width}.
          {dp + j * ds * esize b ..< dp + j * ds * esize b + esize b})"
    proof
      assume "dp + x * ds * esize b + k \<in> (\<Union>j\<in>{x + 1..<width}.
          {dp + j * ds * esize b ..< dp + j * ds * esize b + esize b})"
      then obtain j where "j \<in> {x + 1..<width}"
        and mem: "dp + x * ds * esize b + k \<in>
            {dp + j * ds * esize b ..< dp + j * ds * esize b + esize b}"
        by blast
      then have ne: "x \<noteq> j" by simp
      have "0 * esize b + x * (ds * esize b) + k \<notin>
            {0 * esize b + j * (ds * esize b) ..< 0 * esize b + j * (ds * esize b) + esize b}"
        using esize_pos [of b] "1.prems"(1,4,5) ne
        by (intro grid_apart [where h = 1]) simp_all
      with mem show False by (simp add: mult.assoc)
    qed
    have "dstm (transpose_x b srcm width ds sp dp x st) (dp + x * ds * esize b + k) =
          dstm (assign b srcm dp (x * ds) sp x st) (dp + x * ds * esize b + k)"
      unfolding unf by (rule transpose_x_frame [OF out])
    also have "\<dots> = srcm (sp + x * esize b + k)"
      by (rule dstm_assign_in [OF "1.prems"(4,5)])
    finally show ?thesis using True by simp
  next
    case False
    with "1.prems" have "x + 1 \<le> i" by simp
    from "1.IH" [OF lt "1.prems"(1) this "1.prems"(3-5)] show ?thesis unfolding unf .
  qed
qed


lemma transpose_y_unfold:
  "y < height \<Longrightarrow>
   transpose_y b srcm width height ss ds sp dp y st =
     transpose_y b srcm width height ss ds (sp + ss * esize b) (dp + esize b) (y + 1)
       (transpose_x b srcm width ds sp dp 0 st)"
  by (subst transpose_y.simps) simp

lemma transpose_y_wrs:
  "wrs (transpose_y b srcm width height ss ds sp dp y st) =
     wrs st \<union> (\<Union>c\<in>{y..<height}. \<Union>i\<in>{0..<width}.
        {dp + (c - y) * esize b + i * ds * esize b ..<
         dp + (c - y) * esize b + i * ds * esize b + esize b})"
proof (induction b srcm width height ss ds sp dp y st rule: transpose_y.induct)
  case (1 b srcm width height ss ds sp dp y st)
  show ?case
  proof (cases "y < height")
    case True
    show ?thesis
      unfolding transpose_y_unfold [OF True] "1.IH" [OF True, unfolded mult_1] transpose_x_wrs
        int_range_step [OF True] row_shift
      by (simp add: Un_assoc)
  next
    case False
    then show ?thesis by (subst transpose_y.simps) simp
  qed
qed

lemma transpose_y_rds:
  "rds (transpose_y b srcm width height ss ds sp dp y st) =
     rds st \<union> (\<Union>c\<in>{y..<height}. \<Union>i\<in>{0..<width}.
        {sp + (c - y) * (ss * esize b) + i * esize b ..<
         sp + (c - y) * (ss * esize b) + i * esize b + esize b})"
proof (induction b srcm width height ss ds sp dp y st rule: transpose_y.induct)
  case (1 b srcm width height ss ds sp dp y st)
  show ?case
  proof (cases "y < height")
    case True
    show ?thesis
      unfolding transpose_y_unfold [OF True] "1.IH" [OF True, unfolded mult_1] transpose_x_rds
        int_range_step [OF True] row_shift
      by (simp add: Un_assoc)
  next
    case False
    then show ?thesis by (subst transpose_y.simps) simp
  qed
qed

lemma transpose_y_frame:
  "a \<notin> (\<Union>c\<in>{y..<height}. \<Union>i\<in>{0..<width}.
        {dp + (c - y) * esize b + i * ds * esize b ..<
         dp + (c - y) * esize b + i * ds * esize b + esize b}) \<Longrightarrow>
   dstm (transpose_y b srcm width height ss ds sp dp y st) a = dstm st a"
proof (induction b srcm width height ss ds sp dp y st rule: transpose_y.induct)
  case (1 b srcm width height ss ds sp dp y st)
  show ?case
  proof (cases "y < height")
    case True
    from "1.prems" have
      rest: "a \<notin> (\<Union>c\<in>{y + 1..<height}. \<Union>i\<in>{0..<width}.
        {dp + esize b + (c - (y + 1)) * esize b + i * ds * esize b ..<
         dp + esize b + (c - (y + 1)) * esize b + i * ds * esize b + esize b})"
      and here: "a \<notin> (\<Union>i\<in>{0..<width}.
          {dp + i * ds * esize b ..< dp + i * ds * esize b + esize b})"
      unfolding int_range_step [OF True] row_shift by simp_all
    show ?thesis
      unfolding transpose_y_unfold [OF True]
      using "1.IH" [OF True, unfolded mult_1, OF rest] transpose_x_frame [OF here] by simp
  next
    case False
    then show ?thesis by (subst transpose_y.simps) simp
  qed
qed

lemma transpose_y_val:
  "(height - y) * esize b \<le> \<bar>ds * esize b\<bar> \<Longrightarrow> y \<le> c \<Longrightarrow> c < height \<Longrightarrow>
   0 \<le> i \<Longrightarrow> i < width \<Longrightarrow> 0 \<le> k \<Longrightarrow> k < esize b \<Longrightarrow>
   dstm (transpose_y b srcm width height ss ds sp dp y st)
        (dp + (c - y) * esize b + i * ds * esize b + k) =
   srcm (sp + (c - y) * (ss * esize b) + i * esize b + k)"
proof (induction b srcm width height ss ds sp dp y st rule: transpose_y.induct)
  case (1 b srcm width height ss ds sp dp y st)
  from "1.prems" have lt: "y < height" by simp
  note unf = transpose_y_unfold [OF lt]
  show ?case
  proof (cases "c = y")
    case True
    have out: "dp + i * ds * esize b + k \<notin> (\<Union>c\<in>{y + 1..<height}. \<Union>i\<in>{0..<width}.
        {dp + esize b + (c - (y + 1)) * esize b + i * ds * esize b ..<
         dp + esize b + (c - (y + 1)) * esize b + i * ds * esize b + esize b})"
    proof
      assume "dp + i * ds * esize b + k \<in> (\<Union>c\<in>{y + 1..<height}. \<Union>i\<in>{0..<width}.
        {dp + esize b + (c - (y + 1)) * esize b + i * ds * esize b ..<
         dp + esize b + (c - (y + 1)) * esize b + i * ds * esize b + esize b})"
      then obtain c' i' where c': "c' \<in> {y + 1..<height}"
        and mem: "dp + i * ds * esize b + k \<in>
          {dp + (c' - y) * esize b + i' * ds * esize b ..<
           dp + (c' - y) * esize b + i' * ds * esize b + esize b}"
        unfolding row_shift by blast
      have "0 * esize b + i * (ds * esize b) + k \<notin>
            {(c' - y) * esize b + i' * (ds * esize b) ..<
             (c' - y) * esize b + i' * (ds * esize b) + esize b}"
        using esize_pos [of b] "1.prems"(1,6,7) c' lt
        by (intro grid_apart [where h = "height - y"]) simp_all
      with mem show False by (simp add: mult.assoc)
    qed
    have small: "esize b \<le> \<bar>ds * esize b\<bar>"
    proof -
      have "1 * esize b \<le> (height - y) * esize b"
        using lt esize_pos [of b] by (intro mult_right_mono) auto
      with "1.prems"(1) show ?thesis by simp
    qed
    have "dstm (transpose_y b srcm width height ss ds sp dp y st) (dp + i * ds * esize b + k) =
          dstm (transpose_x b srcm width ds sp dp 0 st) (dp + i * ds * esize b + k)"
      unfolding unf by (rule "transpose_y_frame" [OF out])
    also have "\<dots> = srcm (sp + i * esize b + k)"
      using "1.prems" small by (intro transpose_x_val) auto
    finally show ?thesis using True by simp
  next
    case False
    with "1.prems" have c: "y + 1 \<le> c" by simp
    have "(height - (y + 1)) * esize b \<le> (height - y) * esize b"
      using esize_pos [of b] by (intro mult_right_mono) auto
    with "1.prems"(1) have D: "(height - (y + 1)) * esize b \<le> \<bar>ds * esize b\<bar>" by simp
    from "1.IH" [OF lt, unfolded mult_1, OF D c "1.prems"(3-7)] show ?thesis
      unfolding unf row_shift .
  qed
qed


lemma transpose_px:
  assumes dv: "esize b dvd dst_stride" "esize b dvd src_stride"
    and wide: "height * esize b \<le> \<bar>dst_stride\<bar>"
    and row: "0 \<le> y" "y < height" and col: "0 \<le> x" "x < width"
    and k: "0 \<le> k" "k < esize b"
  shows "dstm (transpose_bits b dst dst_stride src src_stride width height srcm st)
           (px b dst dst_stride x y + k) =
         srcm (px b src src_stride y x + k)"
proof -
  let ?ds = "dst_stride sdiv (nbits b div 8)" and ?ss = "src_stride sdiv (nbits b div 8)"
  have D: "?ds * esize b = dst_stride" and S: "?ss * esize b = src_stride"
    using dv by (simp_all add: stride_elems)
  have D': "x * ?ds * esize b = x * dst_stride"
    using D by (simp add: mult.assoc)
  have addr: "px b dst dst_stride x y + k = dst + (y - 0) * esize b + x * dst_stride + k"
    and addr': "px b src src_stride y x + k = src + (y - 0) * src_stride + x * esize b + k"
    by (simp_all add: px_def)
  have "dstm (transpose_y b srcm width height ?ss ?ds src dst 0 st)
          (dst + (y - 0) * esize b + x * ?ds * esize b + k) =
        srcm (src + (y - 0) * (?ss * esize b) + x * esize b + k)"
    using wide row col k by (intro transpose_y_val) (simp_all add: D)
  then show ?thesis
    unfolding transpose_bits_def Let_def addr addr' D' S .
qed

lemma hflip_px2:
  assumes "esize b dvd dst_stride" "esize b dvd src_stride"
    and "width * esize b \<le> dst_stride"
    and "0 \<le> row" "row < height" and "0 \<le> x" "x < width"
    and "0 \<le> k" "k < esize b"
  shows "dstm (hflip_bits b dst dst_stride src src_stride width height srcm st)
           (px b dst dst_stride row x + k) =
         srcm (px b src src_stride row (width - 1 - x) + k)"
  unfolding px_def using assms by (rule hflip_px)

lemma vflip_px:
  assumes fits: "width * esize b < 2 ^ 31"
    and wide: "width * esize b \<le> dst_stride"
    and row: "0 \<le> row" "row < height" and col: "0 \<le> x" "x < width"
    and k: "0 \<le> k" "k < esize b"
  shows "dstm (vflip_bits b dst dst_stride src src_stride width height srcm st)
           (px b dst dst_stride (height - 1 - row) x + k) =
         srcm (px b src src_stride row x + k)"
proof -
  have "x * esize b + esize b \<le> width * esize b"
    using mult_step_le [OF esize_pos col(2)] .
  moreover have "0 \<le> x * esize b" using col esize_pos [of b] by simp
  ultimately have k': "0 \<le> x * esize b + k" "x * esize b + k < width * esize b"
    using k by simp_all
  have nonneg: "0 \<le> width" using col by simp
  from vflip_row [OF nonneg fits wide row k', of dst src src_stride srcm st] show ?thesis
    by (simp add: px_def add.assoc)
qed

lemma r180_px:
  assumes dv: "esize b dvd dst_stride" "esize b dvd src_stride"
    and wide: "width * esize b \<le> dst_stride"
    and row: "0 \<le> row" "row < height" and col: "0 \<le> x" "x < width"
    and k: "0 \<le> k" "k < esize b"
  shows "dstm (r180_bits b dst dst_stride src src_stride width height srcm st)
           (px b dst dst_stride row x + k) =
         srcm (px b src src_stride (height - 1 - row) (width - 1 - x) + k)"
proof -
  have dv': "esize b dvd src_stride * (- 1)" using dv(2) by simp
  have addr: "px b (src + (height - 1) * src_stride) (src_stride * (- 1)) row (width - 1 - x) =
      px b src src_stride (height - 1 - row) (width - 1 - x)"
    by (simp add: px_def algebra_simps)
  from hflip_px2 [where src = "src + (height - 1) * src_stride" and dst = dst and srcm = srcm
      and st = st, OF dv(1) dv' wide row col k]
  show ?thesis
    unfolding r180_bits_def Let_def addr .
qed

lemma r90_px:
  assumes dv: "esize b dvd dst_stride" "esize b dvd src_stride"
    and wide: "height * esize b \<le> \<bar>dst_stride\<bar>"
    and row: "0 \<le> y" "y < height" and col: "0 \<le> x" "x < width"
    and k: "0 \<le> k" "k < esize b"
  shows "dstm (r90_bits b dst dst_stride src src_stride width height srcm st)
           (px b dst dst_stride x y + k) =
         srcm (px b src src_stride (height - 1 - y) x + k)"
proof -
  have dv': "esize b dvd src_stride * (- 1)" using dv(2) by simp
  have addr: "px b (src + (height - 1) * src_stride) (src_stride * (- 1)) y x =
      px b src src_stride (height - 1 - y) x"
    by (simp add: px_def algebra_simps)
  from transpose_px [where src = "src + (height - 1) * src_stride" and dst = dst
      and srcm = srcm and st = st, OF dv(1) dv' wide row col k]
  show ?thesis
    unfolding r90_bits_def Let_def addr .
qed

lemma r270_px:
  assumes dv: "esize b dvd dst_stride" "esize b dvd src_stride"
    and wide: "height * esize b \<le> \<bar>dst_stride\<bar>"
    and row: "0 \<le> y" "y < height" and col: "0 \<le> x" "x < width"
    and k: "0 \<le> k" "k < esize b"
  shows "dstm (r270_bits b dst dst_stride src src_stride width height srcm st)
           (px b dst dst_stride (width - 1 - x) y + k) =
         srcm (px b src src_stride y x + k)"
proof -
  have dv': "esize b dvd dst_stride * (- 1)" using dv(1) by simp
  have wide': "height * esize b \<le> \<bar>dst_stride * (- 1)\<bar>" using wide by simp
  have addr: "px b (dst + (width - 1) * dst_stride) (dst_stride * (- 1)) x y =
      px b dst dst_stride (width - 1 - x) y"
    by (simp add: px_def algebra_simps)
  from transpose_px [where dst = "dst + (width - 1) * dst_stride" and src = src
      and srcm = srcm and st = st, OF dv' dv(2) wide' row col k]
  show ?thesis
    unfolding r270_bits_def Let_def addr .
qed

lemma antitranspose_px:
  assumes dv: "esize b dvd dst_stride" "esize b dvd src_stride"
    and wide: "height * esize b \<le> \<bar>dst_stride\<bar>"
    and row: "0 \<le> y" "y < height" and col: "0 \<le> x" "x < width"
    and k: "0 \<le> k" "k < esize b"
  shows "dstm (antitranspose_bits b dst dst_stride src src_stride width height srcm st)
           (px b dst dst_stride (width - 1 - x) y + k) =
         srcm (px b src src_stride (height - 1 - y) x + k)"
proof -
  have dv': "esize b dvd src_stride * (- 1)" using dv(2) by simp
  have addr: "px b (src + (height - 1) * src_stride) (src_stride * (- 1)) y x =
      px b src src_stride (height - 1 - y) x"
    by (simp add: px_def algebra_simps)
  from r270_px [where src = "src + (height - 1) * src_stride" and dst = dst
      and srcm = srcm and st = st, OF dv(1) dv' wide row col k]
  show ?thesis
    unfolding antitranspose_bits_def Let_def addr .
qed

lemma elem_eqI:
  assumes "\<And>k. 0 \<le> k \<Longrightarrow> k < esize b \<Longrightarrow> m (a + k) = m' (a' + k)"
  shows "elem b m a = elem b m' a'"
  unfolding elem_def by (rule map_cong [OF refl]) (simp add: assms)

lemma hflip_example:
  "map (dstm (hflip_bits B8 dst dst_stride 0 src_stride 4 1 (mem_of_list [1, 2, 3, 4]) st))
       [dst, dst + 1, dst + 2, dst + 3] = [4, 3, 2, 1]"
  by (simp add: hflip_bits_def hflip_y.simps hflip_x.simps assign_def memcpy_def esize_def
      mem_of_list_def Let_def)

section \<open>The claims about the plane primitives\<close>

text \<open>
  C2. For every element width, every width and height \<open>\<ge> 0\<close>, and source and destination
  strides that are multiples of the element width and at least \<open>width * esize b\<close>, hflip
  leaves \<open>dst[row][x] = src[row][width-1-x]\<close> for every row in \<open>[0, height)\<close> and every
  \<open>x\<close> in \<open>[0, width)\<close>. In particular, with width 4, height 1, one-byte elements and
  the source row 1, 2, 3, 4, the destination row is 4, 3, 2, 1.
\<close>

theorem hflip_reverses_rows:
  "(\<forall>b dst dst_stride src src_stride width height srcm st row x.
      0 \<le> width \<and> 0 \<le> height \<and>
      esize b dvd dst_stride \<and> esize b dvd src_stride \<and>
      width * esize b \<le> dst_stride \<and> width * esize b \<le> src_stride \<and>
      0 \<le> row \<and> row < height \<and> 0 \<le> x \<and> x < width \<longrightarrow>
      elem b (dstm (hflip_bits b dst dst_stride src src_stride width height srcm st))
           (px b dst dst_stride row x) =
      elem b srcm (px b src src_stride row (width - 1 - x))) \<and>
   (\<forall>dst dst_stride src_stride st.
      map (dstm (hflip_bits B8 dst dst_stride 0 src_stride 4 1 (mem_of_list [1, 2, 3, 4]) st))
          [dst, dst + 1, dst + 2, dst + 3] = [4, 3, 2, 1])"
proof (intro conjI allI impI)
  fix b srcm st and dst dst_stride src src_stride width height row x :: int
  assume h: "0 \<le> width \<and> 0 \<le> height \<and>
      esize b dvd dst_stride \<and> esize b dvd src_stride \<and>
      width * esize b \<le> dst_stride \<and> width * esize b \<le> src_stride \<and>
      0 \<le> row \<and> row < height \<and> 0 \<le> x \<and> x < width"
  show "elem b (dstm (hflip_bits b dst dst_stride src src_stride width height srcm st))
           (px b dst dst_stride row x) =
      elem b srcm (px b src src_stride row (width - 1 - x))"
    using h by (intro elem_eqI hflip_px2) simp_all
next
  fix dst dst_stride src_stride :: int and st
  show "map (dstm (hflip_bits B8 dst dst_stride 0 src_stride 4 1 (mem_of_list [1, 2, 3, 4]) st))
          [dst, dst + 1, dst + 2, dst + 3] = [4, 3, 2, 1]"
    by (rule hflip_example)
qed

theorem hflip_reverses_rows_witness:
  "(0::int) \<le> 3 \<and> (0::int) \<le> 2 \<and> esize B16 dvd 8 \<and> 3 * esize B16 \<le> 8 \<and>
   elem B16 (dstm (hflip_bits B16 0 8 0 8 3 2
                     (mem_of_list [1, 2, 3, 4, 5, 6, 0, 0, 7, 8, 9, 10, 11, 12]) fresh))
        (px B16 0 8 1 0) = [11, 12]"
proof -
  have "elem B16 (dstm (hflip_bits B16 0 8 0 8 3 2
                     (mem_of_list [1, 2, 3, 4, 5, 6, 0, 0, 7, 8, 9, 10, 11, 12]) fresh))
        (px B16 0 8 1 0) =
      elem B16 (mem_of_list [1, 2, 3, 4, 5, 6, 0, 0, 7, 8, 9, 10, 11, 12]) (px B16 0 8 1 (3 - 1 - 0))"
    by (rule hflip_reverses_rows [THEN conjunct1, rule_format]) (simp add: esize_def)
  then show ?thesis
    by (simp add: esize_def elem_def px_def mem_of_list_def upt_rec)
qed

lemma r180_elem:
  assumes "esize b dvd dst_stride" "esize b dvd src_stride" "width * esize b \<le> dst_stride"
    and "0 \<le> y" "y < height" "0 \<le> x" "x < width"
  shows "elem b (dstm (r180_bits b dst dst_stride src src_stride width height srcm st))
              (px b dst dst_stride y x) =
         elem b srcm (px b src src_stride (height - 1 - y) (width - 1 - x))"
  using assms by (intro elem_eqI r180_px) simp_all

lemma transpose_elem:
  assumes "esize b dvd dst_stride" "esize b dvd src_stride"
    and "height * esize b \<le> \<bar>dst_stride\<bar>"
    and "0 \<le> y" "y < height" "0 \<le> x" "x < width"
  shows "elem b (dstm (transpose_bits b dst dst_stride src src_stride width height srcm st))
              (px b dst dst_stride x y) =
         elem b srcm (px b src src_stride y x)"
  using assms by (intro elem_eqI transpose_px) simp_all

lemma r90_elem:
  assumes "esize b dvd dst_stride" "esize b dvd src_stride"
    and "height * esize b \<le> \<bar>dst_stride\<bar>"
    and "0 \<le> y" "y < height" "0 \<le> x" "x < width"
  shows "elem b (dstm (r90_bits b dst dst_stride src src_stride width height srcm st))
              (px b dst dst_stride x y) =
         elem b srcm (px b src src_stride (height - 1 - y) x)"
  using assms by (intro elem_eqI r90_px) simp_all

lemma r270_elem:
  assumes "esize b dvd dst_stride" "esize b dvd src_stride"
    and "height * esize b \<le> \<bar>dst_stride\<bar>"
    and "0 \<le> y" "y < height" "0 \<le> x" "x < width"
  shows "elem b (dstm (r270_bits b dst dst_stride src src_stride width height srcm st))
              (px b dst dst_stride x y) =
         elem b srcm (px b src src_stride y (width - 1 - x))"
proof -
  have x': "0 \<le> width - 1 - x" "width - 1 - x < width" using assms by simp_all
  have "elem b (dstm (r270_bits b dst dst_stride src src_stride width height srcm st))
              (px b dst dst_stride (width - 1 - (width - 1 - x)) y) =
         elem b srcm (px b src src_stride y (width - 1 - x))"
    using assms x' by (intro elem_eqI r270_px) simp_all
  then show ?thesis by simp
qed

lemma antitranspose_elem:
  assumes "esize b dvd dst_stride" "esize b dvd src_stride"
    and "height * esize b \<le> \<bar>dst_stride\<bar>"
    and "0 \<le> y" "y < height" "0 \<le> x" "x < width"
  shows "elem b (dstm (antitranspose_bits b dst dst_stride src src_stride width height srcm st))
              (px b dst dst_stride x y) =
         elem b srcm (px b src src_stride (height - 1 - y) (width - 1 - x))"
proof -
  have x': "0 \<le> width - 1 - x" "width - 1 - x < width" using assms by simp_all
  have "elem b (dstm (antitranspose_bits b dst dst_stride src src_stride width height srcm st))
              (px b dst dst_stride (width - 1 - (width - 1 - x)) y) =
         elem b srcm (px b src src_stride (height - 1 - y) (width - 1 - x))"
    using assms x' by (intro elem_eqI antitranspose_px) simp_all
  then show ?thesis by simp
qed

text \<open>
  C1. For every element width, all source dimensions \<open>\<ge> 0\<close> and strides that are
  multiples of the element width and at least the visible row size of their plane (the
  destination rows of r90, r270 and antitranspose hold \<open>src_height\<close> elements), each
  transform composed with a negated stride equals its index formula at every position in
  bounds: r180 leaves \<open>dst[y][x] = src[height-1-y][width-1-x]\<close>, r90 leaves
  \<open>dst[x][y] = src[srcHeight-1-y][x]\<close>, r270 leaves \<open>dst[x][y] = src[y][srcWidth-1-x]\<close>
  and antitranspose leaves \<open>dst[x][y] = src[srcHeight-1-y][srcWidth-1-x]\<close>.
\<close>

theorem derived_transforms_index_formulas:
  "(\<forall>b dst dst_stride src src_stride width height srcm st y x.
      0 \<le> width \<and> 0 \<le> height \<and>
      esize b dvd dst_stride \<and> esize b dvd src_stride \<and>
      width * esize b \<le> dst_stride \<and> width * esize b \<le> src_stride \<and>
      0 \<le> y \<and> y < height \<and> 0 \<le> x \<and> x < width \<longrightarrow>
      elem b (dstm (r180_bits b dst dst_stride src src_stride width height srcm st))
           (px b dst dst_stride y x) =
      elem b srcm (px b src src_stride (height - 1 - y) (width - 1 - x))) \<and>
   (\<forall>b dst dst_stride src src_stride src_width src_height srcm st y x.
      0 \<le> src_width \<and> 0 \<le> src_height \<and>
      esize b dvd dst_stride \<and> esize b dvd src_stride \<and>
      src_height * esize b \<le> dst_stride \<and> src_width * esize b \<le> src_stride \<and>
      0 \<le> y \<and> y < src_height \<and> 0 \<le> x \<and> x < src_width \<longrightarrow>
      elem b (dstm (r90_bits b dst dst_stride src src_stride src_width src_height srcm st))
           (px b dst dst_stride x y) =
      elem b srcm (px b src src_stride (src_height - 1 - y) x)) \<and>
   (\<forall>b dst dst_stride src src_stride src_width src_height srcm st y x.
      0 \<le> src_width \<and> 0 \<le> src_height \<and>
      esize b dvd dst_stride \<and> esize b dvd src_stride \<and>
      src_height * esize b \<le> dst_stride \<and> src_width * esize b \<le> src_stride \<and>
      0 \<le> y \<and> y < src_height \<and> 0 \<le> x \<and> x < src_width \<longrightarrow>
      elem b (dstm (r270_bits b dst dst_stride src src_stride src_width src_height srcm st))
           (px b dst dst_stride x y) =
      elem b srcm (px b src src_stride y (src_width - 1 - x))) \<and>
   (\<forall>b dst dst_stride src src_stride src_width src_height srcm st y x.
      0 \<le> src_width \<and> 0 \<le> src_height \<and>
      esize b dvd dst_stride \<and> esize b dvd src_stride \<and>
      src_height * esize b \<le> dst_stride \<and> src_width * esize b \<le> src_stride \<and>
      0 \<le> y \<and> y < src_height \<and> 0 \<le> x \<and> x < src_width \<longrightarrow>
      elem b (dstm (antitranspose_bits b dst dst_stride src src_stride src_width src_height
                      srcm st))
           (px b dst dst_stride x y) =
      elem b srcm (px b src src_stride (src_height - 1 - y) (src_width - 1 - x)))"
proof -
  have big: "h * w \<le> \<bar>d\<bar>" if "h * w \<le> d" for h w d :: int
    using that by simp
  show ?thesis
    apply (intro conjI allI impI)
    subgoal by (rule r180_elem) simp_all
    subgoal by (rule r90_elem) (simp_all add: big)
    subgoal by (rule r270_elem) (simp_all add: big)
    subgoal by (rule antitranspose_elem) (simp_all add: big)
    done
qed


text \<open>
  The four formulas on the 3 by 2 source with rows 1, 2, 3 and 4, 5, 6.
\<close>

theorem derived_transforms_index_formulas_witness:
  "esize B8 dvd 2 \<and> esize B8 dvd 3 \<and> 2 * esize B8 \<le> 2 \<and> 3 * esize B8 \<le> 3 \<and>
   elem B8 (dstm (r180_bits B8 0 3 0 3 3 2 (mem_of_list [1, 2, 3, 4, 5, 6]) fresh))
        (px B8 0 3 0 0) = [6] \<and>
   elem B8 (dstm (r90_bits B8 0 2 0 3 3 2 (mem_of_list [1, 2, 3, 4, 5, 6]) fresh))
        (px B8 0 2 2 0) = [6] \<and>
   elem B8 (dstm (r270_bits B8 0 2 0 3 3 2 (mem_of_list [1, 2, 3, 4, 5, 6]) fresh))
        (px B8 0 2 2 1) = [4] \<and>
   elem B8 (dstm (antitranspose_bits B8 0 2 0 3 3 2 (mem_of_list [1, 2, 3, 4, 5, 6]) fresh))
        (px B8 0 2 0 1) = [3]"
proof -
  let ?m = "mem_of_list [1, 2, 3, 4, 5, 6]"
  note main = derived_transforms_index_formulas
  have a: "elem B8 (dstm (r180_bits B8 0 3 0 3 3 2 ?m fresh)) (px B8 0 3 0 0) =
           elem B8 ?m (px B8 0 3 (2 - 1 - 0) (3 - 1 - 0))"
    by (rule main [THEN conjunct1, rule_format]) (simp add: esize_def)
  have b: "elem B8 (dstm (r90_bits B8 0 2 0 3 3 2 ?m fresh)) (px B8 0 2 2 0) =
           elem B8 ?m (px B8 0 3 (2 - 1 - 0) 2)"
    by (rule main [THEN conjunct2, THEN conjunct1, rule_format]) (simp add: esize_def)
  have c: "elem B8 (dstm (r270_bits B8 0 2 0 3 3 2 ?m fresh)) (px B8 0 2 2 1) =
           elem B8 ?m (px B8 0 3 1 (3 - 1 - 2))"
    by (rule main [THEN conjunct2, THEN conjunct2, THEN conjunct1, rule_format])
      (simp add: esize_def)
  have d: "elem B8 (dstm (antitranspose_bits B8 0 2 0 3 3 2 ?m fresh)) (px B8 0 2 0 1) =
           elem B8 ?m (px B8 0 3 (2 - 1 - 1) (3 - 1 - 0))"
    by (rule main [THEN conjunct2, THEN conjunct2, THEN conjunct2, rule_format])
      (simp add: esize_def)
  show ?thesis
    unfolding a b c d by (simp add: esize_def elem_def px_def mem_of_list_def upt_rec)
qed

lemma transpose_example:
  "map (dstm (transpose_bits B8 0 2 0 3 3 2 (mem_of_list [1, 2, 3, 4, 5, 6]) st))
       [0, 1, 2, 3, 4, 5] = [1, 4, 2, 5, 3, 6]"
  by (simp add: transpose_bits_def transpose_y.simps transpose_x.simps assign_def memcpy_def
      esize_def mem_of_list_def Let_def)

text \<open>
  C3. For every element width, all source dimensions \<open>\<ge> 0\<close> and strides that are
  multiples of the element width, transpose leaves \<open>dst[x][y] = src[y][x]\<close> for every
  \<open>y\<close> in \<open>[0, src_height)\<close> and \<open>x\<close> in \<open>[0, src_width)\<close>; the output is
  \<open>src_height\<close> wide and \<open>src_width\<close> high. The destination is a plane, whose stride
  holds at least its visible row (section 3 of the specification): that row has
  \<open>src_height\<close> elements, so \<open>src_height * esize b \<le> dst_stride\<close>. The bound is stated
  on the magnitude of the stride, which also covers the negated stride that r270 passes. In
  particular the 3 by 2 source with rows 1, 2, 3 and 4, 5, 6 gives the 2 by 3 output with
  rows 1, 4 and 2, 5 and 3, 6.
\<close>

theorem transpose_swaps_indices:
  "(\<forall>b dst dst_stride src src_stride src_width src_height srcm st y x.
      0 \<le> src_width \<and> 0 \<le> src_height \<and>
      esize b dvd dst_stride \<and> esize b dvd src_stride \<and>
      src_height * esize b \<le> \<bar>dst_stride\<bar> \<and>
      0 \<le> y \<and> y < src_height \<and> 0 \<le> x \<and> x < src_width \<longrightarrow>
      elem b (dstm (transpose_bits b dst dst_stride src src_stride src_width src_height srcm st))
           (px b dst dst_stride x y) =
      elem b srcm (px b src src_stride y x)) \<and>
   (\<forall>st. map (dstm (transpose_bits B8 0 2 0 3 3 2 (mem_of_list [1, 2, 3, 4, 5, 6]) st))
          [0, 1, 2, 3, 4, 5] = [1, 4, 2, 5, 3, 6])"
  apply (intro conjI allI impI)
  subgoal by (rule transpose_elem) simp_all
  subgoal by (rule transpose_example)
  done

theorem transpose_swaps_indices_witness:
  "esize B16 dvd 4 \<and> esize B16 dvd 6 \<and> 2 * esize B16 \<le> \<bar>4::int\<bar> \<and>
   elem B16 (dstm (transpose_bits B16 0 4 0 6 3 2
                (mem_of_list [1, 2, 3, 4, 5, 6, 7, 8, 9, 10, 11, 12]) fresh))
        (px B16 0 4 2 1) = [11, 12]"
proof -
  let ?m = "mem_of_list [1, 2, 3, 4, 5, 6, 7, 8, 9, 10, 11, 12]"
  have "elem B16 (dstm (transpose_bits B16 0 4 0 6 3 2 ?m fresh)) (px B16 0 4 2 1) =
        elem B16 ?m (px B16 0 6 1 2)"
    by (rule transpose_swaps_indices [THEN conjunct1, rule_format]) (simp add: esize_def)
  then show ?thesis
    by (simp add: esize_def elem_def px_def mem_of_list_def upt_rec)
qed

section \<open>The claims about the pointer mapping\<close>

lemma Mouse_result:
  assumes "p_sys filt = Some sys"
    and "Mouse_sx (transform sys) (i_visible_width (fmt_out_video filt))
           (i_visible_height (fmt_out_video filt)) (i_x mouse) (i_y mouse) = Some sx"
    and "Mouse_sy (transform sys) (i_visible_width (fmt_out_video filt))
           (i_visible_height (fmt_out_video filt)) (i_x mouse) (i_y mouse) = Some sy"
  shows "Mouse filt mouse mold = Inr (VLC_SUCCESS, mouse\<lparr>i_x := sx, i_y := sy\<rparr>)"
  using assms by (simp add: Mouse_def Let_def)

lemma Mouse_sx_Some: "t \<noteq> TRANSFORM_IDENTITY \<Longrightarrow> \<exists>sx. Mouse_sx t dw dh dx dy = Some sx"
  by (cases t) simp_all

lemma Mouse_sy_Some: "t \<noteq> TRANSFORM_IDENTITY \<Longrightarrow> \<exists>sy. Mouse_sy t dw dh dx dy = Some sy"
  by (cases t) simp_all

lemma MapPointerBack_Some:
  "t \<noteq> TRANSFORM_IDENTITY \<Longrightarrow> \<exists>sx sy. spec_MapPointerBack t dw dh dx dy = Some (sx, sy)"
  by (cases t) simp_all

text \<open>
  Whatever the sizes are, the coordinates \<^verbatim>\<open>Mouse\<close> stores are those of the table
  modulo \<open>2 ^ 32\<close>.
\<close>

lemma Mouse_table:
  assumes "p_sys filt = Some sys"
    and "spec_MapPointerBack (transform sys) (uint (i_visible_width (fmt_out_video filt)))
           (uint (i_visible_height (fmt_out_video filt))) (sint (i_x mouse)) (sint (i_y mouse))
         = Some (sx, sy)"
  shows "Mouse filt mouse mold =
         Inr (VLC_SUCCESS, mouse\<lparr>i_x := word_of_int sx, i_y := word_of_int sy\<rparr>)"
  using assms by (cases "transform sys") (auto simp: Mouse_def Let_def)

text \<open>
  With a visible width of \<open>2 ^ 32 - 1\<close>, which is \<open>-1\<close> as an \<^verbatim>\<open>int\<close>, HFLIP maps the
  column 10 to \<open>-12\<close>.
\<close>

lemma Mouse_wraps:
  "Mouse (filter_with (format_of ''I420'' 4294967295 50 0) (format_of ''I420'' 4294967295 50 1)
            TRANSFORM_HFLIP) \<lparr>i_x = 10, i_y = 5\<rparr> mold =
     Inr (VLC_SUCCESS, \<lparr>i_x = - 12, i_y = 5\<rparr>) \<and>
   sint (- 12 :: c_int) = - 12"
  by (simp add: Mouse_def Let_def filter_with_def format_of_def)

text \<open>
  C4. For each of the seven transforms other than the identity, and every pointer position
  \<open>(dx, dy)\<close> with destination dimensions \<open>(dw, dh)\<close>, \<^verbatim>\<open>Mouse\<close> returns exactly the
  \<open>(sx, sy)\<close> of the table of the specification: HFLIP \<open>(dw-1-dx, dy)\<close>, VFLIP
  \<open>(dx, dh-1-dy)\<close>, R180 \<open>(dw-1-dx, dh-1-dy)\<close>, TRANSPOSE \<open>(dy, dx)\<close>, R90
  \<open>(dy, dw-1-dx)\<close>, R270 \<open>(dh-1-dy, dx)\<close>, ANTITRANSPOSE \<open>(dh-1-dy, dw-1-dx)\<close>.
  \<^verbatim>\<open>Mouse\<close> holds \<open>dw\<close>, \<open>dh\<close>, \<open>sx\<close> and \<open>sy\<close> in \<^verbatim>\<open>int\<close>s: the
  statement is for visible sizes and table values that are values of an \<^verbatim>\<open>int\<close>, and
  the coordinates returned are the \<^verbatim>\<open>int\<close>s of value \<open>sx\<close> and \<open>sy\<close>. In
  particular HFLIP with a 100 by 50 destination maps \<open>(10, 5)\<close> to \<open>(89, 5)\<close>.
\<close>

theorem Mouse_follows_table:
  "(\<forall>(filt :: filter_t) sys (mouse :: 'a vlc_mouse_t_scheme) (mold :: 'b vlc_mouse_t_scheme).
      p_sys filt = Some sys \<and> transform sys \<noteq> TRANSFORM_IDENTITY \<and>
      in_int (uint (i_visible_width (fmt_out_video filt))) \<and>
      in_int (uint (i_visible_height (fmt_out_video filt))) \<longrightarrow>
      (\<exists>sx sy.
         spec_MapPointerBack (transform sys) (uint (i_visible_width (fmt_out_video filt)))
           (uint (i_visible_height (fmt_out_video filt))) (sint (i_x mouse)) (sint (i_y mouse))
           = Some (sx, sy) \<and>
         (in_int sx \<and> in_int sy \<longrightarrow>
            Mouse filt mouse mold =
              Inr (VLC_SUCCESS, mouse\<lparr>i_x := word_of_int sx, i_y := word_of_int sy\<rparr>) \<and>
            sint (word_of_int sx :: c_int) = sx \<and> sint (word_of_int sy :: c_int) = sy))) \<and>
   (\<forall>(filt :: filter_t) sys (mouse :: 'a vlc_mouse_t_scheme) (mold :: 'b vlc_mouse_t_scheme).
      p_sys filt = Some sys \<and> transform sys = TRANSFORM_HFLIP \<and>
      i_visible_width (fmt_out_video filt) = 100 \<and> i_visible_height (fmt_out_video filt) = 50 \<and>
      i_x mouse = 10 \<and> i_y mouse = 5 \<longrightarrow>
      Mouse filt mouse mold = Inr (VLC_SUCCESS, mouse\<lparr>i_x := 89, i_y := 5\<rparr>) \<and>
      sint (89 :: c_int) = 89 \<and> sint (5 :: c_int) = 5)"
proof (rule conjI; intro allI impI)
  fix filt :: filter_t and sys and mouse :: "'a vlc_mouse_t_scheme" and mold :: "'b vlc_mouse_t_scheme"
  let ?dw = "uint (i_visible_width (fmt_out_video filt))"
  let ?dh = "uint (i_visible_height (fmt_out_video filt))"
  assume "p_sys filt = Some sys \<and> transform sys \<noteq> TRANSFORM_IDENTITY \<and>
      in_int ?dw \<and> in_int ?dh"
  then have sys: "p_sys filt = Some sys" and t: "transform sys \<noteq> TRANSFORM_IDENTITY"
    by simp_all
  from MapPointerBack_Some [OF t] obtain sx sy
    where row: "spec_MapPointerBack (transform sys) ?dw ?dh (sint (i_x mouse)) (sint (i_y mouse))
                = Some (sx, sy)"
    by blast
  have "in_int sx \<and> in_int sy \<longrightarrow>
            Mouse filt mouse mold =
              Inr (VLC_SUCCESS, mouse\<lparr>i_x := word_of_int sx, i_y := word_of_int sy\<rparr>) \<and>
            sint (word_of_int sx :: c_int) = sx \<and> sint (word_of_int sy :: c_int) = sy"
    using Mouse_table [OF sys row, where mold = mold] by (simp add: sint_of_int)
  with row show "\<exists>sx sy.
         spec_MapPointerBack (transform sys) ?dw ?dh (sint (i_x mouse)) (sint (i_y mouse))
           = Some (sx, sy) \<and>
         (in_int sx \<and> in_int sy \<longrightarrow>
            Mouse filt mouse mold =
              Inr (VLC_SUCCESS, mouse\<lparr>i_x := word_of_int sx, i_y := word_of_int sy\<rparr>) \<and>
            sint (word_of_int sx :: c_int) = sx \<and> sint (word_of_int sy :: c_int) = sy)"
    by blast
next
  fix filt :: filter_t and sys and mouse :: "'a vlc_mouse_t_scheme" and mold :: "'b vlc_mouse_t_scheme"
  assume "p_sys filt = Some sys \<and> transform sys = TRANSFORM_HFLIP \<and>
      i_visible_width (fmt_out_video filt) = 100 \<and> i_visible_height (fmt_out_video filt) = 50 \<and>
      i_x mouse = 10 \<and> i_y mouse = 5"
  then show "Mouse filt mouse mold = Inr (VLC_SUCCESS, mouse\<lparr>i_x := 89, i_y := 5\<rparr>) \<and>
      sint (89 :: c_int) = 89 \<and> sint (5 :: c_int) = 5"
    by (simp add: Mouse_def Let_def)
qed

text \<open>R90 with a 100 by 50 destination maps \<open>(10, 5)\<close> to \<open>(5, 89)\<close>.\<close>

theorem Mouse_follows_table_witness:
  "p_sys (filter_with (format_of ''I420'' 50 100 0) (format_of ''I420'' 100 50 0) TRANSFORM_R90)
     = Some \<lparr>transform = TRANSFORM_R90, plane = []\<rparr> \<and>
   TRANSFORM_R90 \<noteq> TRANSFORM_IDENTITY \<and> in_int 100 \<and> in_int 50 \<and> in_int 5 \<and> in_int 89 \<and>
   spec_MapPointerBack TRANSFORM_R90 100 50 10 5 = Some (5, 89) \<and>
   Mouse (filter_with (format_of ''I420'' 50 100 0) (format_of ''I420'' 100 50 0) TRANSFORM_R90)
     \<lparr>i_x = 10, i_y = 5\<rparr> \<lparr>i_x = 0, i_y = 0\<rparr> = Inr (VLC_SUCCESS, \<lparr>i_x = 5, i_y = 89\<rparr>) \<and>
   sint (5 :: c_int) = 5 \<and> sint (89 :: c_int) = 89"
  using Mouse_follows_table [THEN conjunct1, rule_format,
      of "filter_with (format_of ''I420'' 50 100 0) (format_of ''I420'' 100 50 0) TRANSFORM_R90"
         "\<lparr>transform = TRANSFORM_R90, plane = []\<rparr>" "\<lparr>i_x = 10, i_y = 5\<rparr>"
         "\<lparr>i_x = 0, i_y = 0\<rparr>"]
  by (simp add: filter_with_def format_of_def in_int_def)

text \<open>
  C10. For every transform other than the identity and every mouse state, \<^verbatim>\<open>Mouse\<close>
  returns success and the mouse state with new \<^verbatim>\<open>i_x\<close> and \<^verbatim>\<open>i_y\<close> and every other
  field as it was. The two coordinates are the same for any two calls that agree on the
  transform, the visible dimensions of the destination format and the incoming
  \<^verbatim>\<open>i_x\<close> and \<^verbatim>\<open>i_y\<close>, whatever the other fields, the rest of the filter and the
  previous mouse state are.
\<close>

theorem Mouse_writes_coordinates_only:
  "\<forall>(filt :: filter_t) (filt' :: filter_t) sys sys' (mouse :: 'a vlc_mouse_t_scheme) (mouse' :: 'b vlc_mouse_t_scheme)
      (mold :: 'c vlc_mouse_t_scheme) (mold' :: 'd vlc_mouse_t_scheme).
      p_sys filt = Some sys \<and> p_sys filt' = Some sys' \<and>
      transform sys \<noteq> TRANSFORM_IDENTITY \<and> transform sys' = transform sys \<and>
      i_visible_width (fmt_out_video filt') = i_visible_width (fmt_out_video filt) \<and>
      i_visible_height (fmt_out_video filt') = i_visible_height (fmt_out_video filt) \<and>
      i_x mouse' = i_x mouse \<and> i_y mouse' = i_y mouse \<longrightarrow>
      (\<exists>sx sy.
         Mouse filt mouse mold = Inr (VLC_SUCCESS, mouse\<lparr>i_x := sx, i_y := sy\<rparr>) \<and>
         Mouse filt' mouse' mold' = Inr (VLC_SUCCESS, mouse'\<lparr>i_x := sx, i_y := sy\<rparr>) \<and>
         vlc_mouse_t.more (mouse\<lparr>i_x := sx, i_y := sy\<rparr>) = vlc_mouse_t.more mouse)"
proof (intro allI impI)
  fix filt filt' :: filter_t and sys sys' and mouse :: "'a vlc_mouse_t_scheme"
    and mouse' :: "'b vlc_mouse_t_scheme" and mold :: "'c vlc_mouse_t_scheme"
    and mold' :: "'d vlc_mouse_t_scheme"
  assume "p_sys filt = Some sys \<and> p_sys filt' = Some sys' \<and>
      transform sys \<noteq> TRANSFORM_IDENTITY \<and> transform sys' = transform sys \<and>
      i_visible_width (fmt_out_video filt') = i_visible_width (fmt_out_video filt) \<and>
      i_visible_height (fmt_out_video filt') = i_visible_height (fmt_out_video filt) \<and>
      i_x mouse' = i_x mouse \<and> i_y mouse' = i_y mouse"
  then have sys: "p_sys filt = Some sys" "p_sys filt' = Some sys'"
    and t: "transform sys \<noteq> TRANSFORM_IDENTITY" "transform sys' = transform sys"
    and same: "i_visible_width (fmt_out_video filt') = i_visible_width (fmt_out_video filt)"
      "i_visible_height (fmt_out_video filt') = i_visible_height (fmt_out_video filt)"
      "i_x mouse' = i_x mouse" "i_y mouse' = i_y mouse"
    by simp_all
  let ?dw = "i_visible_width (fmt_out_video filt)"
  let ?dh = "i_visible_height (fmt_out_video filt)"
  from Mouse_sx_Some [OF t(1)] obtain sx
    where sx: "Mouse_sx (transform sys) ?dw ?dh (i_x mouse) (i_y mouse) = Some sx" by blast
  from Mouse_sy_Some [OF t(1)] obtain sy
    where sy: "Mouse_sy (transform sys) ?dw ?dh (i_x mouse) (i_y mouse) = Some sy" by blast
  have "Mouse filt mouse mold = Inr (VLC_SUCCESS, mouse\<lparr>i_x := sx, i_y := sy\<rparr>)"
    using sys(1) sx sy by (rule Mouse_result)
  moreover have "Mouse filt' mouse' mold' = Inr (VLC_SUCCESS, mouse'\<lparr>i_x := sx, i_y := sy\<rparr>)"
    using sx sy by (intro Mouse_result [OF sys(2)]) (simp_all add: t same)
  moreover have "vlc_mouse_t.more (mouse\<lparr>i_x := sx, i_y := sy\<rparr>) = vlc_mouse_t.more mouse"
    by simp
  ultimately show "\<exists>sx sy.
         Mouse filt mouse mold = Inr (VLC_SUCCESS, mouse\<lparr>i_x := sx, i_y := sy\<rparr>) \<and>
         Mouse filt' mouse' mold' = Inr (VLC_SUCCESS, mouse'\<lparr>i_x := sx, i_y := sy\<rparr>) \<and>
         vlc_mouse_t.more (mouse\<lparr>i_x := sx, i_y := sy\<rparr>) = vlc_mouse_t.more mouse"
    by blast
qed


text \<open>
  Two VFLIP filters with a 100 by 50 destination, different input formats, different
  further mouse fields and different previous states: both map \<open>(10, 5)\<close> to \<open>(10, 44)\<close>.
\<close>

theorem Mouse_writes_coordinates_only_witness:
  "Mouse (filter_with (format_of ''I420'' 100 50 0) (format_of ''I420'' 100 50 1) TRANSFORM_VFLIP)
     \<lparr>i_x = 10, i_y = 5, \<dots> = (7::nat)\<rparr> \<lparr>i_x = 0, i_y = 0\<rparr> =
     Inr (VLC_SUCCESS, \<lparr>i_x = 10, i_y = 44, \<dots> = (7::nat)\<rparr>) \<and>
   Mouse (filter_with (format_of ''RV32'' 640 480 3) (format_of ''I420'' 100 50 2) TRANSFORM_VFLIP)
     \<lparr>i_x = 10, i_y = 5, \<dots> = True\<rparr> \<lparr>i_x = 99, i_y = 98, \<dots> = (1::int)\<rparr> =
     Inr (VLC_SUCCESS, \<lparr>i_x = 10, i_y = 44, \<dots> = True\<rparr>)"
proof -
  let ?f = "filter_with (format_of ''I420'' 100 50 0) (format_of ''I420'' 100 50 1) TRANSFORM_VFLIP"
  let ?f' = "filter_with (format_of ''RV32'' 640 480 3) (format_of ''I420'' 100 50 2) TRANSFORM_VFLIP"
  let ?m = "\<lparr>i_x = 10, i_y = 5, \<dots> = (7::nat)\<rparr>" and ?m' = "\<lparr>i_x = 10, i_y = 5, \<dots> = True\<rparr>"
  let ?o = "\<lparr>i_x = 0, i_y = 0\<rparr>" and ?o' = "\<lparr>i_x = 99, i_y = 98, \<dots> = (1::int)\<rparr>"
  have "\<exists>sx sy.
         Mouse ?f ?m ?o = Inr (VLC_SUCCESS, ?m\<lparr>i_x := sx, i_y := sy\<rparr>) \<and>
         Mouse ?f' ?m' ?o' = Inr (VLC_SUCCESS, ?m'\<lparr>i_x := sx, i_y := sy\<rparr>) \<and>
         vlc_mouse_t.more (?m\<lparr>i_x := sx, i_y := sy\<rparr>) = vlc_mouse_t.more ?m"
    by (rule Mouse_writes_coordinates_only [rule_format,
          where sys = "\<lparr>transform = TRANSFORM_VFLIP, plane = []\<rparr>"
            and sys' = "\<lparr>transform = TRANSFORM_VFLIP, plane = []\<rparr>"])
       (simp add: filter_with_def format_of_def)
  then obtain sx sy where
    a: "Mouse ?f ?m ?o = Inr (VLC_SUCCESS, ?m\<lparr>i_x := sx, i_y := sy\<rparr>)" and
    b: "Mouse ?f' ?m' ?o' = Inr (VLC_SUCCESS, ?m'\<lparr>i_x := sx, i_y := sy\<rparr>)"
    by blast
  from a have "sx = 10 \<and> sy = 44"
    by (simp add: Mouse_def Let_def filter_with_def format_of_def)
  with a b show ?thesis by simp
qed

lemma plane_of_DESC: "plane_of (DESC g) b = Some (g b)"
  by (cases b) (simp_all add: DESC_def)

lemma plane_moves:
  assumes t: "t \<noteq> TRANSFORM_IDENTITY" and f: "plane_of (descriptions t) b = Some f"
    and strides: "t = TRANSFORM_VFLIP \<or> esize b dvd dst_stride \<and> esize b dvd src_stride"
    and fits: "t = TRANSFORM_VFLIP \<longrightarrow> sw * esize b < 2 ^ 31"
    and wide: "spec_dst_width t sw sh * esize b \<le> dst_stride"
    and sx: "0 \<le> sx" "sx < sw" and sy: "0 \<le> sy" "sy < sh"
    and fw: "spec_forward t sw sh sx sy = (dx, dy)"
  shows "elem b (dstm (f dst dst_stride src src_stride sw sh srcm st)) (px b dst dst_stride dy dx) =
         elem b srcm (px b src src_stride sy sx)"
proof (cases t)
  case TRANSFORM_IDENTITY
  with t show ?thesis by simp
next
  case TRANSFORM_HFLIP
  with strides have dv: "esize b dvd dst_stride" "esize b dvd src_stride" by simp_all
  from TRANSFORM_HFLIP f fw have f: "f = hflip_bits b" and d: "dx = sw - 1 - sx" "dy = sy"
    by (auto simp: plane_of_DESC)
  have "elem b (dstm (hflip_bits b dst dst_stride src src_stride sw sh srcm st))
          (px b dst dst_stride sy (sw - 1 - sx)) =
        elem b srcm (px b src src_stride sy (sw - 1 - (sw - 1 - sx)))"
    using dv wide sx sy TRANSFORM_HFLIP
    by (intro elem_eqI hflip_px2) (simp_all add: spec_dst_width_def)
  then show ?thesis by (simp add: f d)
next
  case TRANSFORM_VFLIP
  with f fw have f: "f = vflip_bits b" and d: "dx = sx" "dy = sh - 1 - sy"
    by (auto simp: plane_of_DESC)
  show ?thesis unfolding f d
    using fits wide sx sy TRANSFORM_VFLIP
    by (intro elem_eqI vflip_px) (simp_all add: spec_dst_width_def)
next
  case TRANSFORM_R180
  with strides have dv: "esize b dvd dst_stride" "esize b dvd src_stride" by simp_all
  from TRANSFORM_R180 f fw have f: "f = r180_bits b" and d: "dx = sw - 1 - sx" "dy = sh - 1 - sy"
    by (auto simp: plane_of_DESC)
  have "elem b (dstm (r180_bits b dst dst_stride src src_stride sw sh srcm st))
          (px b dst dst_stride (sh - 1 - sy) (sw - 1 - sx)) =
        elem b srcm (px b src src_stride (sh - 1 - (sh - 1 - sy)) (sw - 1 - (sw - 1 - sx)))"
    using dv wide sx sy TRANSFORM_R180
    by (intro r180_elem) (simp_all add: spec_dst_width_def)
  then show ?thesis by (simp add: f d)
next
  case TRANSFORM_R270
  with strides have dv: "esize b dvd dst_stride" "esize b dvd src_stride" by simp_all
  from TRANSFORM_R270 f fw have f: "f = r270_bits b" and d: "dx = sy" "dy = sw - 1 - sx"
    by (auto simp: plane_of_DESC)
  show ?thesis unfolding f d
    using dv wide sx sy TRANSFORM_R270
    by (intro elem_eqI r270_px) (simp_all add: spec_dst_width_def)
next
  case TRANSFORM_R90
  with strides have dv: "esize b dvd dst_stride" "esize b dvd src_stride" by simp_all
  from TRANSFORM_R90 f fw have f: "f = r90_bits b" and d: "dx = sh - 1 - sy" "dy = sx"
    by (auto simp: plane_of_DESC)
  have "elem b (dstm (r90_bits b dst dst_stride src src_stride sw sh srcm st))
          (px b dst dst_stride sx (sh - 1 - sy)) =
        elem b srcm (px b src src_stride (sh - 1 - (sh - 1 - sy)) sx)"
    using dv wide sx sy TRANSFORM_R90
    by (intro r90_elem) (simp_all add: spec_dst_width_def)
  then show ?thesis by (simp add: f d)
next
  case TRANSFORM_TRANSPOSE
  with strides have dv: "esize b dvd dst_stride" "esize b dvd src_stride" by simp_all
  from TRANSFORM_TRANSPOSE f fw have f: "f = transpose_bits b" and d: "dx = sy" "dy = sx"
    by (auto simp: plane_of_DESC)
  show ?thesis unfolding f d
    using dv wide sx sy TRANSFORM_TRANSPOSE
    by (intro transpose_elem) (simp_all add: spec_dst_width_def)
next
  case TRANSFORM_ANTI_TRANSPOSE
  with strides have dv: "esize b dvd dst_stride" "esize b dvd src_stride" by simp_all
  from TRANSFORM_ANTI_TRANSPOSE f fw have f: "f = antitranspose_bits b" and d: "dx = sh - 1 - sy" "dy = sw - 1 - sx"
    by (auto simp: plane_of_DESC)
  have "elem b (dstm (antitranspose_bits b dst dst_stride src src_stride sw sh srcm st))
          (px b dst dst_stride (sw - 1 - sx) (sh - 1 - sy)) =
        elem b srcm (px b src src_stride (sh - 1 - (sh - 1 - sy)) sx)"
    using dv wide sx sy TRANSFORM_ANTI_TRANSPOSE
    by (intro elem_eqI antitranspose_px) (simp_all add: spec_dst_width_def)
  then show ?thesis by (simp add: f d)
qed

lemma MapPointerBack_forward:
  assumes "t \<noteq> TRANSFORM_IDENTITY" and "spec_forward t sw sh sx sy = (dx, dy)"
  shows "spec_MapPointerBack t (spec_dst_width t sw sh) (spec_dst_height t sw sh) dx dy =
         Some (sx, sy)"
  using assms by (cases t) (auto simp: spec_dst_width_def spec_dst_height_def)

lemma Mouse_inverts_forward:
  assumes "p_sys filt = Some sys" "transform sys = t" "t \<noteq> TRANSFORM_IDENTITY"
    and "uint (i_visible_width (fmt_out_video filt)) = spec_dst_width t sw sh"
    and "uint (i_visible_height (fmt_out_video filt)) = spec_dst_height t sw sh"
    and "spec_forward t sw sh sx sy = (sint (i_x mouse), sint (i_y mouse))"
  shows "Mouse filt mouse mold =
         Inr (VLC_SUCCESS, mouse\<lparr>i_x := word_of_int sx, i_y := word_of_int sy\<rparr>)"
  using assms(1)
proof (rule Mouse_table)
  show "spec_MapPointerBack (transform sys) (uint (i_visible_width (fmt_out_video filt)))
          (uint (i_visible_height (fmt_out_video filt))) (sint (i_x mouse)) (sint (i_y mouse))
        = Some (sx, sy)"
    unfolding assms(2,4,5) using assms(3,6) by (rule MapPointerBack_forward)
qed

text \<open>
  C5. For every transform other than the identity and every source coordinate
  \<open>(sx, sy)\<close> inside the source plane: \<^verbatim>\<open>Mouse\<close>, set up with the destination
  dimensions of the transform, maps the forward image \<open>(dx, dy)\<close> of \<open>(sx, sy)\<close> back to
  exactly \<open>(sx, sy)\<close>; and the forward mapping is the one of the plane primitive, which
  moves the source element at \<open>(sx, sy)\<close> to the destination position \<open>(dx, dy)\<close>. The
  dimensions \<open>sw\<close> and \<open>sh\<close> of the source plane are values of an \<^verbatim>\<open>int\<close>, as the
  parameters of the primitives and the variables of \<^verbatim>\<open>Mouse\<close> are; for vflip, which
  computes the size of a row in \<^verbatim>\<open>int\<close>, so is \<open>sw * esize b\<close>. The primitives other
  than vflip count their strides in elements, and the strides are multiples of the element
  width for them.
\<close>

theorem forward_then_Mouse_is_identity:
  "(\<forall>t sw sh sx sy dx dy (filt :: filter_t) sys
      (mouse :: 'a vlc_mouse_t_scheme) (mold :: 'b vlc_mouse_t_scheme).
      t \<noteq> TRANSFORM_IDENTITY \<and>
      in_int sw \<and> in_int sh \<and>
      0 \<le> sx \<and> sx < sw \<and> 0 \<le> sy \<and> sy < sh \<and>
      spec_forward t sw sh sx sy = (dx, dy) \<and>
      p_sys filt = Some sys \<and> transform sys = t \<and>
      uint (i_visible_width (fmt_out_video filt)) = spec_dst_width t sw sh \<and>
      uint (i_visible_height (fmt_out_video filt)) = spec_dst_height t sw sh \<and>
      sint (i_x mouse) = dx \<and> sint (i_y mouse) = dy \<longrightarrow>
      Mouse filt mouse mold =
        Inr (VLC_SUCCESS, mouse\<lparr>i_x := word_of_int sx, i_y := word_of_int sy\<rparr>) \<and>
      sint (word_of_int sx :: c_int) = sx \<and> sint (word_of_int sy :: c_int) = sy) \<and>
   (\<forall>t b f dst dst_stride src src_stride sw sh srcm st sx sy dx dy.
      t \<noteq> TRANSFORM_IDENTITY \<and> plane_of (descriptions t) b = Some f \<and>
      (t = TRANSFORM_VFLIP \<or> esize b dvd dst_stride \<and> esize b dvd src_stride) \<and>
      (t = TRANSFORM_VFLIP \<longrightarrow> sw * esize b < 2 ^ 31) \<and>
      spec_dst_width t sw sh * esize b \<le> dst_stride \<and> sw * esize b \<le> src_stride \<and>
      0 \<le> sx \<and> sx < sw \<and> 0 \<le> sy \<and> sy < sh \<and>
      spec_forward t sw sh sx sy = (dx, dy) \<longrightarrow>
      elem b (dstm (f dst dst_stride src src_stride sw sh srcm st)) (px b dst dst_stride dy dx) =
        elem b srcm (px b src src_stride sy sx))"
proof (rule conjI; intro allI impI)
  fix t and sw sh sx sy dx dy :: int and filt :: filter_t and sys
    and mouse :: "'a vlc_mouse_t_scheme" and mold :: "'b vlc_mouse_t_scheme"
  assume "t \<noteq> TRANSFORM_IDENTITY \<and>
      in_int sw \<and> in_int sh \<and>
      0 \<le> sx \<and> sx < sw \<and> 0 \<le> sy \<and> sy < sh \<and>
      spec_forward t sw sh sx sy = (dx, dy) \<and>
      p_sys filt = Some sys \<and> transform sys = t \<and>
      uint (i_visible_width (fmt_out_video filt)) = spec_dst_width t sw sh \<and>
      uint (i_visible_height (fmt_out_video filt)) = spec_dst_height t sw sh \<and>
      sint (i_x mouse) = dx \<and> sint (i_y mouse) = dy"
  then have t: "t \<noteq> TRANSFORM_IDENTITY"
    and range: "in_int sw" "in_int sh"
    and s: "0 \<le> sx" "sx < sw" "0 \<le> sy" "sy < sh"
    and fw: "spec_forward t sw sh sx sy = (dx, dy)"
    and sys: "p_sys filt = Some sys" "transform sys = t"
    and dims: "uint (i_visible_width (fmt_out_video filt)) = spec_dst_width t sw sh"
      "uint (i_visible_height (fmt_out_video filt)) = spec_dst_height t sw sh"
    and m: "sint (i_x mouse) = dx" "sint (i_y mouse) = dy"
    by blast+
  have "Mouse filt mouse mold =
        Inr (VLC_SUCCESS, mouse\<lparr>i_x := word_of_int sx, i_y := word_of_int sy\<rparr>)"
    using sys t dims by (rule Mouse_inverts_forward) (simp add: fw m)
  moreover have "in_int sx" "in_int sy"
    using range s unfolding in_int_def by simp_all
  then have "sint (word_of_int sx :: c_int) = sx" "sint (word_of_int sy :: c_int) = sy"
    by (simp_all add: sint_of_int)
  ultimately show "Mouse filt mouse mold =
        Inr (VLC_SUCCESS, mouse\<lparr>i_x := word_of_int sx, i_y := word_of_int sy\<rparr>) \<and>
      sint (word_of_int sx :: c_int) = sx \<and> sint (word_of_int sy :: c_int) = sy"
    by simp
next
  fix t b f srcm st and dst dst_stride src src_stride sw sh sx sy dx dy :: int
  assume "t \<noteq> TRANSFORM_IDENTITY \<and> plane_of (descriptions t) b = Some f \<and>
      (t = TRANSFORM_VFLIP \<or> esize b dvd dst_stride \<and> esize b dvd src_stride) \<and>
      (t = TRANSFORM_VFLIP \<longrightarrow> sw * esize b < 2 ^ 31) \<and>
      spec_dst_width t sw sh * esize b \<le> dst_stride \<and> sw * esize b \<le> src_stride \<and>
      0 \<le> sx \<and> sx < sw \<and> 0 \<le> sy \<and> sy < sh \<and>
      spec_forward t sw sh sx sy = (dx, dy)"
  then have t: "t \<noteq> TRANSFORM_IDENTITY" and f: "plane_of (descriptions t) b = Some f"
    and strides: "t = TRANSFORM_VFLIP \<or> esize b dvd dst_stride \<and> esize b dvd src_stride"
    and fits: "t = TRANSFORM_VFLIP \<longrightarrow> sw * esize b < 2 ^ 31"
    and wide: "spec_dst_width t sw sh * esize b \<le> dst_stride"
    and s: "0 \<le> sx" "sx < sw" "0 \<le> sy" "sy < sh"
    and fw: "spec_forward t sw sh sx sy = (dx, dy)"
    by blast+
  show "elem b (dstm (f dst dst_stride src src_stride sw sh srcm st)) (px b dst dst_stride dy dx) =
        elem b srcm (px b src src_stride sy sx)"
    using t f strides fits wide s fw by (rule plane_moves)
qed

text \<open>
  R90 on the 3 by 2 source with rows 1, 2, 3 and 4, 5, 6: the element 6 at column 2 of
  row 1 moves to column 0 of row 2, and the pointer at \<open>(0, 2)\<close> maps back to \<open>(2, 1)\<close>.
\<close>

theorem forward_then_Mouse_is_identity_witness:
  "plane_of (descriptions TRANSFORM_R90) B8 = Some (r90_bits B8) \<and>
   spec_forward TRANSFORM_R90 3 2 2 1 = (0, 2) \<and> in_int 3 \<and> in_int 2 \<and>
   elem B8 (dstm (r90_bits B8 0 2 0 3 3 2 (mem_of_list [1, 2, 3, 4, 5, 6]) fresh))
        (px B8 0 2 2 0) = [6] \<and>
   Mouse (filter_with (format_of ''GREY'' 3 2 0) (format_of ''GREY'' 2 3 1) TRANSFORM_R90)
     \<lparr>i_x = 0, i_y = 2\<rparr> \<lparr>i_x = 0, i_y = 0\<rparr> = Inr (VLC_SUCCESS, \<lparr>i_x = 2, i_y = 1\<rparr>) \<and>
   sint (2 :: c_int) = 2 \<and> sint (1 :: c_int) = 1"
proof -
  let ?m = "mem_of_list [1, 2, 3, 4, 5, 6]"
  let ?f = "filter_with (format_of ''GREY'' 3 2 0) (format_of ''GREY'' 2 3 1) TRANSFORM_R90"
  note main = forward_then_Mouse_is_identity
  have "Mouse ?f \<lparr>i_x = 0, i_y = 2\<rparr> \<lparr>i_x = 0, i_y = 0\<rparr> =
          Inr (VLC_SUCCESS, \<lparr>i_x = 0, i_y = 2\<rparr>\<lparr>i_x := word_of_int 2, i_y := word_of_int 1\<rparr>) \<and>
        sint (word_of_int 2 :: c_int) = 2 \<and> sint (word_of_int 1 :: c_int) = 1"
    by (rule main [THEN conjunct1, rule_format,
          where t = TRANSFORM_R90 and sw = 3 and sh = 2
            and sys = "\<lparr>transform = TRANSFORM_R90, plane = []\<rparr>"])
       (simp add: spec_dst_width_def spec_dst_height_def filter_with_def format_of_def
          in_int_def)
  moreover have "elem B8 (dstm (r90_bits B8 0 2 0 3 3 2 ?m fresh)) (px B8 0 2 2 0) =
          elem B8 ?m (px B8 0 3 1 2)"
    by (rule main [THEN conjunct2, rule_format, where t = TRANSFORM_R90])
       (simp add: esize_def DESC_def spec_dst_width_def)
  ultimately show ?thesis
    by (simp add: esize_def DESC_def elem_def px_def mem_of_list_def upt_rec in_int_def)
qed

section \<open>The claim about buffer accesses\<close>

lemma in_visible_iff:
  "a \<in> visible b base stride width height \<longleftrightarrow>
   (\<exists>r. 0 \<le> r \<and> r < height \<and> base + r * stride \<le> a \<and> a < base + r * stride + width * esize b)"
  by (auto simp: visible_def)

lemma elem_in_visible:
  assumes r: "0 \<le> r" "r < height" and c: "0 \<le> c" "c < width"
    and a: "a \<in> {base + r * stride + c * esize b ..< base + r * stride + c * esize b + esize b}"
  shows "a \<in> visible b base stride width height"
proof -
  have "c * esize b + esize b \<le> width * esize b"
    using mult_step_le [OF esize_pos c(2)] .
  moreover have "0 \<le> c * esize b" using c esize_pos [of b] by simp
  ultimately have "base + r * stride \<le> a \<and> a < base + r * stride + width * esize b"
    using a by simp
  with r show ?thesis unfolding in_visible_iff by blast
qed

lemma visible_flip:
  "visible b (base + (height - 1) * stride) (stride * (- 1)) width height =
   visible b base stride width height"
proof (rule set_eqI)
  fix a
  have flip: "base + (height - 1) * stride + r * (stride * (- 1)) = base + (height - 1 - r) * stride"
    for r by (simp add: algebra_simps)
  show "a \<in> visible b (base + (height - 1) * stride) (stride * (- 1)) width height \<longleftrightarrow>
        a \<in> visible b base stride width height"
    unfolding in_visible_iff flip
  proof
    assume "\<exists>r. 0 \<le> r \<and> r < height \<and> base + (height - 1 - r) * stride \<le> a \<and>
        a < base + (height - 1 - r) * stride + width * esize b"
    then obtain r where "0 \<le> r" "r < height" "base + (height - 1 - r) * stride \<le> a"
      "a < base + (height - 1 - r) * stride + width * esize b" by blast
    then have "0 \<le> height - 1 - r \<and> height - 1 - r < height \<and>
        base + (height - 1 - r) * stride \<le> a \<and>
        a < base + (height - 1 - r) * stride + width * esize b" by simp
    then show "\<exists>r. 0 \<le> r \<and> r < height \<and> base + r * stride \<le> a \<and>
        a < base + r * stride + width * esize b" by blast
  next
    assume "\<exists>r. 0 \<le> r \<and> r < height \<and> base + r * stride \<le> a \<and>
        a < base + r * stride + width * esize b"
    then obtain r where "0 \<le> r" "r < height" "base + r * stride \<le> a"
      "a < base + r * stride + width * esize b" by blast
    then have "0 \<le> height - 1 - r \<and> height - 1 - r < height \<and>
        base + (height - 1 - (height - 1 - r)) * stride \<le> a \<and>
        a < base + (height - 1 - (height - 1 - r)) * stride + width * esize b" by simp
    then show "\<exists>r. 0 \<le> r \<and> r < height \<and> base + (height - 1 - r) * stride \<le> a \<and>
        a < base + (height - 1 - r) * stride + width * esize b" by blast
  qed
qed

text \<open>
  A stride places the rows after the first: where a plane has one row at most, or the stride
  is a multiple of the element width, the stride counted in elements places them as the
  stride in bytes does.
\<close>

lemma stride_rows:
  assumes "esize b dvd s \<or> n \<le> 1" and "r \<in> {0..<n}"
  shows "r * (s sdiv (nbits b div 8) * esize b) = r * s"
proof (cases "esize b dvd s")
  case True
  then show ?thesis by (simp add: stride_elems)
next
  case False
  with assms have "r = 0" by simp
  then show ?thesis by simp
qed

text \<open>The addresses hflip writes and reads lie in the visible parts.\<close>

lemma hflip_written_visible:
  assumes "a \<in> (\<Union>r\<in>{0..<height}. \<Union>i\<in>{0..<width}.
        {dst + (width - 1) * esize b + (r - 0) * stride - i * esize b ..<
         dst + (width - 1) * esize b + (r - 0) * stride - i * esize b + esize b})"
  shows "a \<in> visible b dst stride width height"
proof -
  from assms obtain r i where r: "0 \<le> r" "r < height" and i: "0 \<le> i" "i < width"
    and a: "a \<in> {dst + (width - 1) * esize b + (r - 0) * stride - i * esize b ..<
         dst + (width - 1) * esize b + (r - 0) * stride - i * esize b + esize b}"
    by auto
  have eq: "dst + (width - 1) * esize b + (r - 0) * stride - i * esize b =
      dst + r * stride + (width - 1 - i) * esize b"
    by (simp add: algebra_simps)
  show ?thesis
    using r i a unfolding eq by (intro elem_in_visible [where r = r and c = "width - 1 - i"]) simp_all
qed

lemma hflip_read_visible:
  assumes "a \<in> (\<Union>r\<in>{0..<height}. \<Union>i\<in>{0..<width}.
        {src + (r - 0) * stride + i * esize b ..< src + (r - 0) * stride + i * esize b + esize b})"
  shows "a \<in> visible b src stride width height"
proof -
  from assms obtain r i where r: "0 \<le> r" "r < height" and i: "0 \<le> i" "i < width"
    and a: "a \<in> {src + (r - 0) * stride + i * esize b ..<
                  src + (r - 0) * stride + i * esize b + esize b}"
    by auto
  show ?thesis
    using r i a by (intro elem_in_visible [where r = r and c = i]) simp_all
qed

lemma hflip_bits_access:
  assumes dst: "esize b dvd dst_stride \<or> height \<le> 1"
    and src: "esize b dvd src_stride \<or> height \<le> 1"
  shows "rds (hflip_bits b dst dst_stride src src_stride width height srcm st)
           \<subseteq> rds st \<union> visible b src src_stride width height"
    and "wrs (hflip_bits b dst dst_stride src src_stride width height srcm st)
           \<subseteq> wrs st \<union> visible b dst dst_stride width height"
    and "a \<notin> visible b dst dst_stride width height \<Longrightarrow>
         dstm (hflip_bits b dst dst_stride src src_stride width height srcm st) a = dstm st a"
proof -
  let ?ds = "dst_stride sdiv (nbits b div 8)" and ?ss = "src_stride sdiv (nbits b div 8)"
  have D: "(\<Union>r\<in>{0..<height}. \<Union>i\<in>{0..<width}.
        {dst + (width - 1) * esize b + (r - 0) * (?ds * esize b) - i * esize b ..<
         dst + (width - 1) * esize b + (r - 0) * (?ds * esize b) - i * esize b + esize b}) =
      (\<Union>r\<in>{0..<height}. \<Union>i\<in>{0..<width}.
        {dst + (width - 1) * esize b + (r - 0) * dst_stride - i * esize b ..<
         dst + (width - 1) * esize b + (r - 0) * dst_stride - i * esize b + esize b})"
    by (rule SUP_cong [OF refl]) (simp add: stride_rows [OF dst])
  have S: "(\<Union>r\<in>{0..<height}. \<Union>i\<in>{0..<width}.
        {src + (r - 0) * (?ss * esize b) + i * esize b ..<
         src + (r - 0) * (?ss * esize b) + i * esize b + esize b}) =
      (\<Union>r\<in>{0..<height}. \<Union>i\<in>{0..<width}.
        {src + (r - 0) * src_stride + i * esize b ..<
         src + (r - 0) * src_stride + i * esize b + esize b})"
    by (rule SUP_cong [OF refl]) (simp add: stride_rows [OF src])
  show "rds (hflip_bits b dst dst_stride src src_stride width height srcm st)
           \<subseteq> rds st \<union> visible b src src_stride width height"
    unfolding hflip_bits_def Let_def hflip_y_rds S
    using hflip_read_visible by blast
  show "wrs (hflip_bits b dst dst_stride src src_stride width height srcm st)
           \<subseteq> wrs st \<union> visible b dst dst_stride width height"
    unfolding hflip_bits_def Let_def hflip_y_wrs D
    using hflip_written_visible by blast
  show "dstm (hflip_bits b dst dst_stride src src_stride width height srcm st) a = dstm st a"
    if "a \<notin> visible b dst dst_stride width height"
    unfolding hflip_bits_def Let_def
    by (rule hflip_y_frame) (use that hflip_written_visible in \<open>unfold D, blast\<close>)
qed


lemma hflip_bits_nothing:
  assumes "width = 0 \<or> height = 0"
  shows "rds (hflip_bits b dst dst_stride src src_stride width height srcm st) = rds st \<and>
         wrs (hflip_bits b dst dst_stride src src_stride width height srcm st) = wrs st \<and>
         dstm (hflip_bits b dst dst_stride src src_stride width height srcm st) = dstm st"
proof (intro conjI ext)
  show "rds (hflip_bits b dst dst_stride src src_stride width height srcm st) = rds st"
    unfolding hflip_bits_def Let_def hflip_y_rds using assms by auto
  show "wrs (hflip_bits b dst dst_stride src src_stride width height srcm st) = wrs st"
    unfolding hflip_bits_def Let_def hflip_y_wrs using assms by auto
  show "dstm (hflip_bits b dst dst_stride src src_stride width height srcm st) a = dstm st a" for a
    unfolding hflip_bits_def Let_def by (rule hflip_y_frame) (use assms in auto)
qed

lemma vflip_bits_access:
  assumes nonneg: "0 \<le> width" and fits: "width * esize b < 2 ^ 31"
  shows "rds (vflip_bits b dst dst_stride src src_stride width height srcm st)
           \<subseteq> rds st \<union> visible b src src_stride width height"
    and "wrs (vflip_bits b dst dst_stride src src_stride width height srcm st)
           \<subseteq> wrs st \<union> visible b dst dst_stride width height"
    and "a \<notin> visible b dst dst_stride width height \<Longrightarrow>
         dstm (vflip_bits b dst dst_stride src src_stride width height srcm st) a = dstm st a"
proof -
  have flipped: "dst + dst_stride * height - (r - 0 + 1) * dst_stride =
      dst + (height - 1 - r) * dst_stride" for r
    by (simp add: algebra_simps)
  have written: "c \<in> visible b dst dst_stride width height"
    if "c \<in> (\<Union>r\<in>{0..<height}.
          {dst + dst_stride * height - (r - 0 + 1) * dst_stride ..<
           dst + dst_stride * height - (r - 0 + 1) * dst_stride + width * esize b})" for c
  proof -
    from that obtain r where "0 \<le> r" "r < height"
      and "dst + (height - 1 - r) * dst_stride \<le> c"
      and "c < dst + (height - 1 - r) * dst_stride + width * esize b"
      unfolding flipped by auto
    then have "0 \<le> height - 1 - r \<and> height - 1 - r < height \<and>
        dst + (height - 1 - r) * dst_stride \<le> c \<and>
        c < dst + (height - 1 - r) * dst_stride + width * esize b" by simp
    then show ?thesis unfolding in_visible_iff by blast
  qed
  show "rds (vflip_bits b dst dst_stride src src_stride width height srcm st)
           \<subseteq> rds st \<union> visible b src src_stride width height"
    unfolding vflip_bits_def vflip_def Let_def vflip_pitch [OF nonneg fits] vflip_y_rds
    by (auto simp: in_visible_iff)
  show "wrs (vflip_bits b dst dst_stride src src_stride width height srcm st)
           \<subseteq> wrs st \<union> visible b dst dst_stride width height"
    unfolding vflip_bits_def vflip_def Let_def vflip_pitch [OF nonneg fits] vflip_y_wrs
    using written by blast
  show "dstm (vflip_bits b dst dst_stride src src_stride width height srcm st) a = dstm st a"
    if "a \<notin> visible b dst dst_stride width height"
    unfolding vflip_bits_def vflip_def Let_def vflip_pitch [OF nonneg fits]
    by (rule vflip_y_frame) (use that written in blast)
qed

lemma vflip_bits_nothing:
  assumes "width = 0 \<or> height = 0"
  shows "rds (vflip_bits b dst dst_stride src src_stride width height srcm st) = rds st \<and>
         wrs (vflip_bits b dst dst_stride src src_stride width height srcm st) = wrs st \<and>
         dstm (vflip_bits b dst dst_stride src src_stride width height srcm st) = dstm st"
proof (intro conjI ext)
  show "rds (vflip_bits b dst dst_stride src src_stride width height srcm st) = rds st"
    unfolding vflip_bits_def vflip_def Let_def vflip_y_rds using assms by auto
  show "wrs (vflip_bits b dst dst_stride src src_stride width height srcm st) = wrs st"
    unfolding vflip_bits_def vflip_def Let_def vflip_y_wrs using assms by auto
  show "dstm (vflip_bits b dst dst_stride src src_stride width height srcm st) a = dstm st a" for a
    unfolding vflip_bits_def vflip_def Let_def
    by (rule vflip_y_frame) (use assms in auto)
qed

lemma transpose_written_visible:
  assumes "a \<in> (\<Union>c\<in>{0..<height}. \<Union>i\<in>{0..<width}.
        {dst + (c - 0) * esize b + i * stride ..< dst + (c - 0) * esize b + i * stride + esize b})"
  shows "a \<in> visible b dst stride height width"
proof -
  from assms obtain c i where c: "0 \<le> c" "c < height" and i: "0 \<le> i" "i < width"
    and a: "a \<in> {dst + (c - 0) * esize b + i * stride ..<
                  dst + (c - 0) * esize b + i * stride + esize b}"
    by auto
  have eq: "dst + (c - 0) * esize b + i * stride = dst + i * stride + c * esize b"
    by simp
  show ?thesis
    using c i a unfolding eq by (intro elem_in_visible [where r = i and c = c]) simp_all
qed

lemma transpose_bits_access:
  assumes dst: "esize b dvd dst_stride \<or> width \<le> 1"
    and src: "esize b dvd src_stride \<or> height \<le> 1"
  shows "rds (transpose_bits b dst dst_stride src src_stride width height srcm st)
           \<subseteq> rds st \<union> visible b src src_stride width height"
    and "wrs (transpose_bits b dst dst_stride src src_stride width height srcm st)
           \<subseteq> wrs st \<union> visible b dst dst_stride height width"
    and "a \<notin> visible b dst dst_stride height width \<Longrightarrow>
         dstm (transpose_bits b dst dst_stride src src_stride width height srcm st) a = dstm st a"
proof -
  let ?ds = "dst_stride sdiv (nbits b div 8)" and ?ss = "src_stride sdiv (nbits b div 8)"
  have step: "i * ?ds * esize b = i * dst_stride" if "i \<in> {0..<width}" for i
    using stride_rows [OF dst that] by (simp add: mult.assoc)
  have D: "(\<Union>c\<in>{0..<height}. \<Union>i\<in>{0..<width}.
        {dst + (c - 0) * esize b + i * ?ds * esize b ..<
         dst + (c - 0) * esize b + i * ?ds * esize b + esize b}) =
      (\<Union>c\<in>{0..<height}. \<Union>i\<in>{0..<width}.
        {dst + (c - 0) * esize b + i * dst_stride ..<
         dst + (c - 0) * esize b + i * dst_stride + esize b})"
    by (intro SUP_cong refl) (simp only: step)
  have S: "(\<Union>c\<in>{0..<height}. \<Union>i\<in>{0..<width}.
        {src + (c - 0) * (?ss * esize b) + i * esize b ..<
         src + (c - 0) * (?ss * esize b) + i * esize b + esize b}) =
      (\<Union>c\<in>{0..<height}. \<Union>i\<in>{0..<width}.
        {src + (c - 0) * src_stride + i * esize b ..<
         src + (c - 0) * src_stride + i * esize b + esize b})"
    by (rule SUP_cong [OF refl]) (simp add: stride_rows [OF src])
  show "rds (transpose_bits b dst dst_stride src src_stride width height srcm st)
           \<subseteq> rds st \<union> visible b src src_stride width height"
    unfolding transpose_bits_def Let_def transpose_y_rds S
    using hflip_read_visible by blast
  show "wrs (transpose_bits b dst dst_stride src src_stride width height srcm st)
           \<subseteq> wrs st \<union> visible b dst dst_stride height width"
    unfolding transpose_bits_def Let_def transpose_y_wrs D
    using transpose_written_visible by blast
  show "dstm (transpose_bits b dst dst_stride src src_stride width height srcm st) a = dstm st a"
    if "a \<notin> visible b dst dst_stride height width"
    unfolding transpose_bits_def Let_def
    by (rule transpose_y_frame) (use that transpose_written_visible in \<open>unfold D, blast\<close>)
qed

lemma transpose_bits_nothing:
  assumes "width = 0 \<or> height = 0"
  shows "rds (transpose_bits b dst dst_stride src src_stride width height srcm st) = rds st \<and>
         wrs (transpose_bits b dst dst_stride src src_stride width height srcm st) = wrs st \<and>
         dstm (transpose_bits b dst dst_stride src src_stride width height srcm st) = dstm st"
proof (intro conjI ext)
  show "rds (transpose_bits b dst dst_stride src src_stride width height srcm st) = rds st"
    unfolding transpose_bits_def Let_def transpose_y_rds using assms by auto
  show "wrs (transpose_bits b dst dst_stride src src_stride width height srcm st) = wrs st"
    unfolding transpose_bits_def Let_def transpose_y_wrs using assms by auto
  show "dstm (transpose_bits b dst dst_stride src src_stride width height srcm st) a = dstm st a"
    for a
    unfolding transpose_bits_def Let_def by (rule transpose_y_frame) (use assms in auto)
qed


lemma r180_bits_access:
  assumes dst: "esize b dvd dst_stride \<or> height \<le> 1"
    and src: "esize b dvd src_stride \<or> height \<le> 1"
  shows "rds (r180_bits b dst dst_stride src src_stride width height srcm st)
           \<subseteq> rds st \<union> visible b src src_stride width height"
    and "wrs (r180_bits b dst dst_stride src src_stride width height srcm st)
           \<subseteq> wrs st \<union> visible b dst dst_stride width height"
    and "a \<notin> visible b dst dst_stride width height \<Longrightarrow>
         dstm (r180_bits b dst dst_stride src src_stride width height srcm st) a = dstm st a"
proof -
  have src': "esize b dvd src_stride * (- 1) \<or> height \<le> 1" using src by simp
  note acc = hflip_bits_access [OF dst src', where src = "src + (height - 1) * src_stride"
      and width = width, unfolded visible_flip]
  show "rds (r180_bits b dst dst_stride src src_stride width height srcm st)
           \<subseteq> rds st \<union> visible b src src_stride width height"
    unfolding r180_bits_def Let_def by (rule acc(1))
  show "wrs (r180_bits b dst dst_stride src src_stride width height srcm st)
           \<subseteq> wrs st \<union> visible b dst dst_stride width height"
    unfolding r180_bits_def Let_def by (rule acc(2))
  show "dstm (r180_bits b dst dst_stride src src_stride width height srcm st) a = dstm st a"
    if "a \<notin> visible b dst dst_stride width height"
    unfolding r180_bits_def Let_def using that by (rule acc(3))
qed

lemma r90_bits_access:
  assumes dst: "esize b dvd dst_stride \<or> width \<le> 1"
    and src: "esize b dvd src_stride \<or> height \<le> 1"
  shows "rds (r90_bits b dst dst_stride src src_stride width height srcm st)
           \<subseteq> rds st \<union> visible b src src_stride width height"
    and "wrs (r90_bits b dst dst_stride src src_stride width height srcm st)
           \<subseteq> wrs st \<union> visible b dst dst_stride height width"
    and "a \<notin> visible b dst dst_stride height width \<Longrightarrow>
         dstm (r90_bits b dst dst_stride src src_stride width height srcm st) a = dstm st a"
proof -
  have src': "esize b dvd src_stride * (- 1) \<or> height \<le> 1" using src by simp
  note acc = transpose_bits_access [OF dst src', where src = "src + (height - 1) * src_stride",
      unfolded visible_flip]
  show "rds (r90_bits b dst dst_stride src src_stride width height srcm st)
           \<subseteq> rds st \<union> visible b src src_stride width height"
    unfolding r90_bits_def Let_def by (rule acc(1))
  show "wrs (r90_bits b dst dst_stride src src_stride width height srcm st)
           \<subseteq> wrs st \<union> visible b dst dst_stride height width"
    unfolding r90_bits_def Let_def by (rule acc(2))
  show "dstm (r90_bits b dst dst_stride src src_stride width height srcm st) a = dstm st a"
    if "a \<notin> visible b dst dst_stride height width"
    unfolding r90_bits_def Let_def using that by (rule acc(3))
qed

lemma r270_bits_access:
  assumes dst: "esize b dvd dst_stride \<or> width \<le> 1"
    and src: "esize b dvd src_stride \<or> height \<le> 1"
  shows "rds (r270_bits b dst dst_stride src src_stride width height srcm st)
           \<subseteq> rds st \<union> visible b src src_stride width height"
    and "wrs (r270_bits b dst dst_stride src src_stride width height srcm st)
           \<subseteq> wrs st \<union> visible b dst dst_stride height width"
    and "a \<notin> visible b dst dst_stride height width \<Longrightarrow>
         dstm (r270_bits b dst dst_stride src src_stride width height srcm st) a = dstm st a"
proof -
  have dst': "esize b dvd dst_stride * (- 1) \<or> width \<le> 1" using dst by simp
  note acc = transpose_bits_access [OF dst' src, where dst = "dst + (width - 1) * dst_stride",
      unfolded visible_flip]
  show "rds (r270_bits b dst dst_stride src src_stride width height srcm st)
           \<subseteq> rds st \<union> visible b src src_stride width height"
    unfolding r270_bits_def Let_def by (rule acc(1))
  show "wrs (r270_bits b dst dst_stride src src_stride width height srcm st)
           \<subseteq> wrs st \<union> visible b dst dst_stride height width"
    unfolding r270_bits_def Let_def by (rule acc(2))
  show "dstm (r270_bits b dst dst_stride src src_stride width height srcm st) a = dstm st a"
    if "a \<notin> visible b dst dst_stride height width"
    unfolding r270_bits_def Let_def using that by (rule acc(3))
qed

lemma antitranspose_bits_access:
  assumes dst: "esize b dvd dst_stride \<or> width \<le> 1"
    and src: "esize b dvd src_stride \<or> height \<le> 1"
  shows "rds (antitranspose_bits b dst dst_stride src src_stride width height srcm st)
           \<subseteq> rds st \<union> visible b src src_stride width height"
    and "wrs (antitranspose_bits b dst dst_stride src src_stride width height srcm st)
           \<subseteq> wrs st \<union> visible b dst dst_stride height width"
    and "a \<notin> visible b dst dst_stride height width \<Longrightarrow>
         dstm (antitranspose_bits b dst dst_stride src src_stride width height srcm st) a =
         dstm st a"
proof -
  have src': "esize b dvd src_stride * (- 1) \<or> height \<le> 1" using src by simp
  note acc = r270_bits_access [OF dst src', where src = "src + (height - 1) * src_stride",
      unfolded visible_flip]
  show "rds (antitranspose_bits b dst dst_stride src src_stride width height srcm st)
           \<subseteq> rds st \<union> visible b src src_stride width height"
    unfolding antitranspose_bits_def Let_def by (rule acc(1))
  show "wrs (antitranspose_bits b dst dst_stride src src_stride width height srcm st)
           \<subseteq> wrs st \<union> visible b dst dst_stride height width"
    unfolding antitranspose_bits_def Let_def by (rule acc(2))
  show "dstm (antitranspose_bits b dst dst_stride src src_stride width height srcm st) a =
        dstm st a"
    if "a \<notin> visible b dst dst_stride height width"
    unfolding antitranspose_bits_def Let_def using that by (rule acc(3))
qed

lemma derived_nothing:
  assumes "width = 0 \<or> height = 0"
  shows "rds (r180_bits b dst dst_stride src src_stride width height srcm st) = rds st \<and>
         wrs (r180_bits b dst dst_stride src src_stride width height srcm st) = wrs st \<and>
         dstm (r180_bits b dst dst_stride src src_stride width height srcm st) = dstm st"
    and "rds (r90_bits b dst dst_stride src src_stride width height srcm st) = rds st \<and>
         wrs (r90_bits b dst dst_stride src src_stride width height srcm st) = wrs st \<and>
         dstm (r90_bits b dst dst_stride src src_stride width height srcm st) = dstm st"
    and "rds (r270_bits b dst dst_stride src src_stride width height srcm st) = rds st \<and>
         wrs (r270_bits b dst dst_stride src src_stride width height srcm st) = wrs st \<and>
         dstm (r270_bits b dst dst_stride src src_stride width height srcm st) = dstm st"
    and "rds (antitranspose_bits b dst dst_stride src src_stride width height srcm st) = rds st \<and>
         wrs (antitranspose_bits b dst dst_stride src src_stride width height srcm st) = wrs st \<and>
         dstm (antitranspose_bits b dst dst_stride src src_stride width height srcm st) = dstm st"
  unfolding r180_bits_def r90_bits_def r270_bits_def antitranspose_bits_def Let_def
  using assms by (simp_all add: hflip_bits_nothing transpose_bits_nothing)


lemma plane_confined:
  assumes t: "t \<noteq> TRANSFORM_IDENTITY" and f: "plane_of (descriptions t) b = Some f"
    and strides: "t = TRANSFORM_VFLIP \<or>
      (esize b dvd dst_stride \<or> spec_dst_height t sw sh \<le> 1) \<and>
      (esize b dvd src_stride \<or> sh \<le> 1)"
    and fits: "t = TRANSFORM_VFLIP \<longrightarrow> 0 \<le> sw \<and> sw * esize b < 2 ^ 31"
  shows "rds (f dst dst_stride src src_stride sw sh srcm st)
           \<subseteq> rds st \<union> visible b src src_stride sw sh \<and>
         wrs (f dst dst_stride src src_stride sw sh srcm st)
           \<subseteq> wrs st \<union> visible b dst dst_stride (spec_dst_width t sw sh) (spec_dst_height t sw sh) \<and>
         (\<forall>a. a \<notin> visible b dst dst_stride (spec_dst_width t sw sh) (spec_dst_height t sw sh) \<longrightarrow>
              dstm (f dst dst_stride src src_stride sw sh srcm st) a = dstm st a)"
proof (cases t)
  case TRANSFORM_IDENTITY
  with t show ?thesis by simp
next
  case TRANSFORM_VFLIP
  with f have "f = vflip_bits b" by (simp add: plane_of_DESC)
  moreover from TRANSFORM_VFLIP fits have w: "0 \<le> sw" "sw * esize b < 2 ^ 31" by simp_all
  ultimately show ?thesis
    using vflip_bits_access [OF w] TRANSFORM_VFLIP
    by (simp add: spec_dst_width_def spec_dst_height_def)
next
  case TRANSFORM_HFLIP
  with strides have dst: "esize b dvd dst_stride \<or> spec_dst_height t sw sh \<le> 1"
    and src: "esize b dvd src_stride \<or> sh \<le> 1"
    by simp_all
  from TRANSFORM_HFLIP f have "f = hflip_bits b" by (simp add: plane_of_DESC)
  then show ?thesis
    using hflip_bits_access [OF dst [unfolded spec_dst_height_def TRANSFORM_HFLIP ORIENT_IS_SWAP.simps if_False] src] TRANSFORM_HFLIP
    by (simp add: spec_dst_width_def spec_dst_height_def)
next
  case TRANSFORM_R180
  with strides have dst: "esize b dvd dst_stride \<or> spec_dst_height t sw sh \<le> 1"
    and src: "esize b dvd src_stride \<or> sh \<le> 1"
    by simp_all
  from TRANSFORM_R180 f have "f = r180_bits b" by (simp add: plane_of_DESC)
  then show ?thesis
    using r180_bits_access [OF dst [unfolded spec_dst_height_def TRANSFORM_R180 ORIENT_IS_SWAP.simps if_False] src] TRANSFORM_R180
    by (simp add: spec_dst_width_def spec_dst_height_def)
next
  case TRANSFORM_R270
  with strides have dst: "esize b dvd dst_stride \<or> spec_dst_height t sw sh \<le> 1"
    and src: "esize b dvd src_stride \<or> sh \<le> 1"
    by simp_all
  from TRANSFORM_R270 f have "f = r270_bits b" by (simp add: plane_of_DESC)
  then show ?thesis
    using r270_bits_access [OF dst [unfolded spec_dst_height_def TRANSFORM_R270 ORIENT_IS_SWAP.simps if_True] src] TRANSFORM_R270
    by (simp add: spec_dst_width_def spec_dst_height_def)
next
  case TRANSFORM_R90
  with strides have dst: "esize b dvd dst_stride \<or> spec_dst_height t sw sh \<le> 1"
    and src: "esize b dvd src_stride \<or> sh \<le> 1"
    by simp_all
  from TRANSFORM_R90 f have "f = r90_bits b" by (simp add: plane_of_DESC)
  then show ?thesis
    using r90_bits_access [OF dst [unfolded spec_dst_height_def TRANSFORM_R90 ORIENT_IS_SWAP.simps if_True] src] TRANSFORM_R90
    by (simp add: spec_dst_width_def spec_dst_height_def)
next
  case TRANSFORM_TRANSPOSE
  with strides have dst: "esize b dvd dst_stride \<or> spec_dst_height t sw sh \<le> 1"
    and src: "esize b dvd src_stride \<or> sh \<le> 1"
    by simp_all
  from TRANSFORM_TRANSPOSE f have "f = transpose_bits b" by (simp add: plane_of_DESC)
  then show ?thesis
    using transpose_bits_access [OF dst [unfolded spec_dst_height_def TRANSFORM_TRANSPOSE ORIENT_IS_SWAP.simps if_True] src] TRANSFORM_TRANSPOSE
    by (simp add: spec_dst_width_def spec_dst_height_def)
next
  case TRANSFORM_ANTI_TRANSPOSE
  with strides have dst: "esize b dvd dst_stride \<or> spec_dst_height t sw sh \<le> 1"
    and src: "esize b dvd src_stride \<or> sh \<le> 1"
    by simp_all
  from TRANSFORM_ANTI_TRANSPOSE f have "f = antitranspose_bits b" by (simp add: plane_of_DESC)
  then show ?thesis
    using antitranspose_bits_access [OF dst [unfolded spec_dst_height_def TRANSFORM_ANTI_TRANSPOSE ORIENT_IS_SWAP.simps if_True] src] TRANSFORM_ANTI_TRANSPOSE
    by (simp add: spec_dst_width_def spec_dst_height_def)
qed

lemma plane_nothing:
  assumes t: "t \<noteq> TRANSFORM_IDENTITY" and f: "plane_of (descriptions t) b = Some f"
    and z: "sw = 0 \<or> sh = 0"
  shows "rds (f dst dst_stride src src_stride sw sh srcm st) = rds st \<and>
         wrs (f dst dst_stride src src_stride sw sh srcm st) = wrs st \<and>
         dstm (f dst dst_stride src src_stride sw sh srcm st) = dstm st"
  using t f hflip_bits_nothing [OF z] vflip_bits_nothing [OF z] transpose_bits_nothing [OF z]
    derived_nothing [OF z]
  by (cases t) (auto simp: plane_of_DESC)


text \<open>
  C6 as stated lets the strides be any size from the visible row up. \<^verbatim>\<open>hflip_16\<close> divides
  its strides by 2, so with a stride of 5 bytes, 2 elements a row and 2 rows it takes the
  second row to start at byte 4, which is the padding byte of the first row: it reads byte 4
  of the source and writes byte 4 of the destination, outside the visible part of both.
\<close>

theorem odd_stride_leaves_visible_region_counterexample:
  "plane_of (descriptions TRANSFORM_HFLIP) B16 = Some (hflip_bits B16) \<and>
   (0::int) \<le> 2 \<and> 2 * esize B16 \<le> 5 \<and>
   4 \<in> rds (hflip_bits B16 0 5 0 5 2 2 (mem_of_list []) fresh) \<and>
   4 \<notin> visible B16 0 5 2 2 \<and>
   4 \<in> wrs (hflip_bits B16 0 5 0 5 2 2 (mem_of_list []) fresh)"
proof -
  have "4 \<notin> visible B16 0 5 2 2"
    unfolding in_visible_iff by (auto simp: esize_def)
  moreover have "4 \<in> rds (hflip_bits B16 0 5 0 5 2 2 (mem_of_list []) fresh)"
    apply (simp add: hflip_bits_def Let_def hflip_y_rds esize_def signed_divide_int_def)
    apply (rule disjI2)
    apply (rule bexI [where x = 1])
     apply (rule bexI [where x = 0])
      apply simp_all
    done
  moreover have "4 \<in> wrs (hflip_bits B16 0 5 0 5 2 2 (mem_of_list []) fresh)"
    apply (simp add: hflip_bits_def Let_def hflip_y_wrs esize_def signed_divide_int_def)
    apply (rule disjI2)
    apply (rule bexI [where x = 1])
     apply (rule bexI [where x = 1])
      apply simp_all
    done
  ultimately show ?thesis by (simp add: DESC_def esize_def)
qed

text \<open>
  C6, amended. For each of the seven plane primitives and every element width: with width 0
  or height 0 nothing is read and nothing is written; and with width and height \<open>\<ge> 0\<close>
  and strides of any size, so also larger than the visible row, every byte read lies in the
  visible part of the source and every byte written in the visible part of the destination,
  whose rows hold \<open>height\<close> elements for the swap class, and every other destination byte,
  padding included, keeps its value. The primitives other than vflip count their strides in
  elements: for them the stride of a plane with more than one row is a multiple of the
  element width. vflip takes any strides, and computes the size of a row in \<^verbatim>\<open>int\<close>, of
  which \<open>width * esize b\<close> is a value.
\<close>

theorem primitives_stay_in_visible_region:
  "(\<forall>t b f dst dst_stride src src_stride width height srcm m.
      t \<noteq> TRANSFORM_IDENTITY \<and> plane_of (descriptions t) b = Some f \<and>
      (width = 0 \<or> height = 0) \<longrightarrow>
      rds (f dst dst_stride src src_stride width height srcm \<lparr>dstm = m, rds = {}, wrs = {}\<rparr>)
        = {} \<and>
      wrs (f dst dst_stride src src_stride width height srcm \<lparr>dstm = m, rds = {}, wrs = {}\<rparr>)
        = {} \<and>
      dstm (f dst dst_stride src src_stride width height srcm \<lparr>dstm = m, rds = {}, wrs = {}\<rparr>)
        = m) \<and>
   (\<forall>t b f dst dst_stride src src_stride width height srcm m.
      t \<noteq> TRANSFORM_IDENTITY \<and> plane_of (descriptions t) b = Some f \<and>
      0 \<le> width \<and> 0 \<le> height \<and>
      (t = TRANSFORM_VFLIP \<or>
       (esize b dvd dst_stride \<or> spec_dst_height t width height \<le> 1) \<and>
       (esize b dvd src_stride \<or> height \<le> 1)) \<and>
      (t = TRANSFORM_VFLIP \<longrightarrow> width * esize b < 2 ^ 31) \<longrightarrow>
      rds (f dst dst_stride src src_stride width height srcm \<lparr>dstm = m, rds = {}, wrs = {}\<rparr>)
        \<subseteq> visible b src src_stride width height \<and>
      wrs (f dst dst_stride src src_stride width height srcm \<lparr>dstm = m, rds = {}, wrs = {}\<rparr>)
        \<subseteq> visible b dst dst_stride (spec_dst_width t width height)
            (spec_dst_height t width height) \<and>
      (\<forall>a. a \<notin> visible b dst dst_stride (spec_dst_width t width height)
                (spec_dst_height t width height) \<longrightarrow>
           dstm (f dst dst_stride src src_stride width height srcm
                   \<lparr>dstm = m, rds = {}, wrs = {}\<rparr>) a = m a))"
proof (rule conjI; intro allI impI)
  fix t b f srcm m and dst dst_stride src src_stride width height :: int
  let ?st = "\<lparr>dstm = m, rds = {}, wrs = {}\<rparr>"
  assume "t \<noteq> TRANSFORM_IDENTITY \<and> plane_of (descriptions t) b = Some f \<and>
      (width = 0 \<or> height = 0)"
  then have t: "t \<noteq> TRANSFORM_IDENTITY" and f: "plane_of (descriptions t) b = Some f"
    and z: "width = 0 \<or> height = 0"
    by blast+
  from plane_nothing [OF t f z, of dst dst_stride src src_stride srcm ?st]
  show "rds (f dst dst_stride src src_stride width height srcm ?st) = {} \<and>
      wrs (f dst dst_stride src src_stride width height srcm ?st) = {} \<and>
      dstm (f dst dst_stride src src_stride width height srcm ?st) = m"
    by simp
next
  fix t b f srcm m and dst dst_stride src src_stride width height :: int
  let ?st = "\<lparr>dstm = m, rds = {}, wrs = {}\<rparr>"
  assume "t \<noteq> TRANSFORM_IDENTITY \<and> plane_of (descriptions t) b = Some f \<and>
      0 \<le> width \<and> 0 \<le> height \<and>
      (t = TRANSFORM_VFLIP \<or>
       (esize b dvd dst_stride \<or> spec_dst_height t width height \<le> 1) \<and>
       (esize b dvd src_stride \<or> height \<le> 1)) \<and>
      (t = TRANSFORM_VFLIP \<longrightarrow> width * esize b < 2 ^ 31)"
  then have t: "t \<noteq> TRANSFORM_IDENTITY" and f: "plane_of (descriptions t) b = Some f"
    and strides: "t = TRANSFORM_VFLIP \<or>
       (esize b dvd dst_stride \<or> spec_dst_height t width height \<le> 1) \<and>
       (esize b dvd src_stride \<or> height \<le> 1)"
    and fits: "t = TRANSFORM_VFLIP \<longrightarrow> 0 \<le> width \<and> width * esize b < 2 ^ 31"
    by blast+
  from plane_confined [OF t f strides fits, of dst src srcm ?st]
  show "rds (f dst dst_stride src src_stride width height srcm ?st)
          \<subseteq> visible b src src_stride width height \<and>
      wrs (f dst dst_stride src src_stride width height srcm ?st)
          \<subseteq> visible b dst dst_stride (spec_dst_width t width height)
              (spec_dst_height t width height) \<and>
      (\<forall>a. a \<notin> visible b dst dst_stride (spec_dst_width t width height)
                (spec_dst_height t width height) \<longrightarrow>
           dstm (f dst dst_stride src src_stride width height srcm ?st) a = m a)"
    by simp
qed

text \<open>
  \<^verbatim>\<open>r270_16\<close> on a source of 3 by 2 elements with a stride of 8 bytes, into a destination
  with a stride of 6 bytes: the padding bytes 4 and 5 of the first destination row keep the
  value 0 of the blank destination, and nothing is read from the padding of the source. With
  a width of 0 nothing is read or written. \<^verbatim>\<open>vflip_16\<close> on 2 by 2 elements with strides of
  5 bytes stays clear of the padding byte 4, and so does \<^verbatim>\<open>hflip_16\<close> on a single row of
  2 elements.
\<close>

theorem primitives_stay_in_visible_region_witness:
  "plane_of (descriptions TRANSFORM_R270) B16 = Some (r270_bits B16) \<and>
   esize B16 dvd 6 \<and> esize B16 dvd 8 \<and>
   rds (r270_bits B16 0 6 0 8 3 2 (mem_of_list [1, 2, 3, 4, 5, 6, 0, 0, 7, 8, 9, 10, 11, 12]) fresh)
     \<subseteq> visible B16 0 8 3 2 \<and>
   wrs (r270_bits B16 0 6 0 8 3 2 (mem_of_list [1, 2, 3, 4, 5, 6, 0, 0, 7, 8, 9, 10, 11, 12]) fresh)
     \<subseteq> visible B16 0 6 2 3 \<and>
   6 \<notin> visible B16 0 8 3 2 \<and> 4 \<notin> visible B16 0 6 2 3 \<and>
   dstm (r270_bits B16 0 6 0 8 3 2 (mem_of_list [1, 2, 3, 4, 5, 6, 0, 0, 7, 8, 9, 10, 11, 12]) fresh)
     4 = 0 \<and>
   rds (r270_bits B16 0 6 0 8 0 2 (mem_of_list [1, 2, 3, 4, 5, 6, 0, 0, 7, 8, 9, 10, 11, 12]) fresh)
     = {} \<and>
   wrs (r270_bits B16 0 6 0 8 0 2 (mem_of_list [1, 2, 3, 4, 5, 6, 0, 0, 7, 8, 9, 10, 11, 12]) fresh)
     = {} \<and>
   plane_of (descriptions TRANSFORM_VFLIP) B16 = Some (vflip_bits B16) \<and>
   2 * esize B16 < 2 ^ 31 \<and> 4 \<notin> visible B16 0 5 2 2 \<and>
   rds (vflip_bits B16 0 5 0 5 2 2 (mem_of_list [1, 2, 3, 4, 0, 5, 6, 7, 8]) fresh)
     \<subseteq> visible B16 0 5 2 2 \<and>
   wrs (vflip_bits B16 0 5 0 5 2 2 (mem_of_list [1, 2, 3, 4, 0, 5, 6, 7, 8]) fresh)
     \<subseteq> visible B16 0 5 2 2 \<and>
   dstm (vflip_bits B16 0 5 0 5 2 2 (mem_of_list [1, 2, 3, 4, 0, 5, 6, 7, 8]) fresh) 4 = 0 \<and>
   plane_of (descriptions TRANSFORM_HFLIP) B16 = Some (hflip_bits B16) \<and>
   4 \<notin> visible B16 0 5 2 1 \<and>
   rds (hflip_bits B16 0 5 0 5 2 1 (mem_of_list [1, 2, 3, 4, 0]) fresh) \<subseteq> visible B16 0 5 2 1 \<and>
   wrs (hflip_bits B16 0 5 0 5 2 1 (mem_of_list [1, 2, 3, 4, 0]) fresh) \<subseteq> visible B16 0 5 2 1 \<and>
   dstm (hflip_bits B16 0 5 0 5 2 1 (mem_of_list [1, 2, 3, 4, 0]) fresh) 4 = 0"
proof -
  let ?m = "mem_of_list [1, 2, 3, 4, 5, 6, 0, 0, 7, 8, 9, 10, 11, 12]"
  let ?n = "mem_of_list [1, 2, 3, 4, 0, 5, 6, 7, 8]"
  let ?k = "mem_of_list [1, 2, 3, 4, 0]"
  note main = primitives_stay_in_visible_region
  have pad: "6 \<notin> visible B16 0 8 3 2" "4 \<notin> visible B16 0 6 2 3" "4 \<notin> visible B16 0 5 2 2"
    "4 \<notin> visible B16 0 5 2 1"
    unfolding in_visible_iff by (auto simp: esize_def)
  have f: "plane_of (descriptions TRANSFORM_R270) B16 = Some (r270_bits B16)"
    by (simp add: DESC_def)
  have g: "plane_of (descriptions TRANSFORM_VFLIP) B16 = Some (vflip_bits B16)"
    by (simp add: DESC_def)
  have h: "plane_of (descriptions TRANSFORM_HFLIP) B16 = Some (hflip_bits B16)"
    by (simp add: DESC_def)
  have "TRANSFORM_R270 \<noteq> TRANSFORM_IDENTITY \<and>
      plane_of (descriptions TRANSFORM_R270) B16 = Some (r270_bits B16) \<and>
      (0::int) \<le> 3 \<and> (0::int) \<le> 2 \<and>
      (TRANSFORM_R270 = TRANSFORM_VFLIP \<or>
       (esize B16 dvd 6 \<or> spec_dst_height TRANSFORM_R270 3 2 \<le> 1) \<and>
       (esize B16 dvd 8 \<or> (2::int) \<le> 1)) \<and>
      (TRANSFORM_R270 = TRANSFORM_VFLIP \<longrightarrow> 3 * esize B16 < 2 ^ 31)"
    using f by (simp add: esize_def)
  from main [THEN conjunct2, rule_format, OF this, of 0 0 ?m "\<lambda>a. 0"] pad
  have inside: "rds (r270_bits B16 0 6 0 8 3 2 ?m fresh) \<subseteq> visible B16 0 8 3 2"
    "wrs (r270_bits B16 0 6 0 8 3 2 ?m fresh) \<subseteq> visible B16 0 6 2 3"
    "dstm (r270_bits B16 0 6 0 8 3 2 ?m fresh) 4 = 0"
    by (simp_all add: fresh_def spec_dst_width_def spec_dst_height_def)
  have "TRANSFORM_R270 \<noteq> TRANSFORM_IDENTITY \<and>
      plane_of (descriptions TRANSFORM_R270) B16 = Some (r270_bits B16) \<and>
      ((0::int) = 0 \<or> (2::int) = 0)"
    using f by simp
  from main [THEN conjunct1, rule_format, OF this, of 0 6 0 8 ?m "\<lambda>a. 0"]
  have idle: "rds (r270_bits B16 0 6 0 8 0 2 ?m fresh) = {}"
    "wrs (r270_bits B16 0 6 0 8 0 2 ?m fresh) = {}"
    by (simp_all add: fresh_def)
  have "TRANSFORM_VFLIP \<noteq> TRANSFORM_IDENTITY \<and>
      plane_of (descriptions TRANSFORM_VFLIP) B16 = Some (vflip_bits B16) \<and>
      (0::int) \<le> 2 \<and> (0::int) \<le> 2 \<and>
      (TRANSFORM_VFLIP = TRANSFORM_VFLIP \<or>
       (esize B16 dvd 5 \<or> spec_dst_height TRANSFORM_VFLIP 2 2 \<le> 1) \<and>
       (esize B16 dvd 5 \<or> (2::int) \<le> 1)) \<and>
      (TRANSFORM_VFLIP = TRANSFORM_VFLIP \<longrightarrow> 2 * esize B16 < 2 ^ 31)"
    using g by (simp add: esize_def)
  from main [THEN conjunct2, rule_format, OF this, of 0 0 ?n "\<lambda>a. 0"] pad
  have flip: "rds (vflip_bits B16 0 5 0 5 2 2 ?n fresh) \<subseteq> visible B16 0 5 2 2"
    "wrs (vflip_bits B16 0 5 0 5 2 2 ?n fresh) \<subseteq> visible B16 0 5 2 2"
    "dstm (vflip_bits B16 0 5 0 5 2 2 ?n fresh) 4 = 0"
    by (simp_all add: fresh_def spec_dst_width_def spec_dst_height_def)
  have "TRANSFORM_HFLIP \<noteq> TRANSFORM_IDENTITY \<and>
      plane_of (descriptions TRANSFORM_HFLIP) B16 = Some (hflip_bits B16) \<and>
      (0::int) \<le> 2 \<and> (0::int) \<le> 1 \<and>
      (TRANSFORM_HFLIP = TRANSFORM_VFLIP \<or>
       (esize B16 dvd 5 \<or> spec_dst_height TRANSFORM_HFLIP 2 1 \<le> 1) \<and>
       (esize B16 dvd 5 \<or> (1::int) \<le> 1)) \<and>
      (TRANSFORM_HFLIP = TRANSFORM_VFLIP \<longrightarrow> 2 * esize B16 < 2 ^ 31)"
    using h by (simp add: esize_def spec_dst_height_def)
  from main [THEN conjunct2, rule_format, OF this, of 0 0 ?k "\<lambda>a. 0"] pad
  have single: "rds (hflip_bits B16 0 5 0 5 2 1 ?k fresh) \<subseteq> visible B16 0 5 2 1"
    "wrs (hflip_bits B16 0 5 0 5 2 1 ?k fresh) \<subseteq> visible B16 0 5 2 1"
    "dstm (hflip_bits B16 0 5 0 5 2 1 ?k fresh) 4 = 0"
    by (simp_all add: fresh_def spec_dst_width_def spec_dst_height_def)
  have dv: "esize B16 dvd 6" "esize B16 dvd 8" by (simp_all add: esize_def)
  have small: "2 * esize B16 < 2 ^ 31" by (simp add: esize_def)
  show ?thesis
    by (intro conjI) (rule f g h dv pad inside idle flip single small)+
qed

section \<open>The claims about Open\<close>

lemma nonsquare_samples_iff:
  "nonsquare_samples chroma i \<longleftrightarrow>
   (\<exists>j\<in>{i..<plane_count chroma}. \<not> spec_square (chroma_p chroma j))"
proof (induction chroma i rule: nonsquare_samples.induct)
  case (1 chroma i)
  show ?case
  proof (cases "i < plane_count chroma")
    case True
    then have split: "{i..<plane_count chroma} = insert i {i + 1..<plane_count chroma}"
      by auto
    show ?thesis
    proof (cases "spec_square (chroma_p chroma i)")
      case sq: True
      then have "nonsquare_samples chroma i = nonsquare_samples chroma (i + 1)"
        using True by (subst nonsquare_samples.simps) (simp add: spec_square_def)
      also have "\<dots> \<longleftrightarrow> (\<exists>j\<in>{i + 1..<plane_count chroma}. \<not> spec_square (chroma_p chroma j))"
        using "1.IH" True sq by (simp add: spec_square_def)
      finally show ?thesis unfolding split using sq by simp
    next
      case nsq: False
      then have "nonsquare_samples chroma i"
        using True by (subst nonsquare_samples.simps) (simp add: spec_square_def)
      then show ?thesis unfolding split using nsq by simp
    qed
  next
    case False
    then show ?thesis by (subst nonsquare_samples.simps) simp
  qed
qed

lemma fill_planes_length: "length (fill_planes n i ps) = length ps"
proof (induction n i ps rule: fill_planes.induct)
  case (1 n i ps)
  show ?case
  proof (cases "i < n")
    case True
    then show ?thesis using "1.IH" by (subst fill_planes.simps) simp
  next
    case False
    then show ?thesis by (subst fill_planes.simps) simp
  qed
qed

lemma fill_planes_nth:
  "1 \<le> i \<Longrightarrow> n \<le> length ps \<Longrightarrow> j < n \<Longrightarrow>
   fill_planes n i ps ! j = (if j < i then ps ! j else ps ! 0)"
proof (induction n i ps rule: fill_planes.induct)
  case (1 n i ps)
  show ?case
  proof (cases "i < n")
    case True
    have "fill_planes n i ps ! j = fill_planes n (i + 1) (ps[i := ps ! 0]) ! j"
      using True by (subst fill_planes.simps) simp
    also have "\<dots> = (if j < i + 1 then ps[i := ps ! 0] ! j else ps[i := ps ! 0] ! 0)"
      using "1.IH" [OF True] "1.prems" by simp
    also have "\<dots> = (if j < i then ps ! j else ps ! 0)"
      using "1.prems" True by (auto simp: nth_list_update)
    finally show ?thesis .
  next
    case False
    then show ?thesis using "1.prems" by (subst fill_planes.simps) simp
  qed
qed


lemma geometry_differs:
  "(i_chroma d \<noteq> i_chroma s \<or> i_width d \<noteq> i_width s \<or>
    i_visible_width d \<noteq> i_visible_width s \<or> i_height d \<noteq> i_height s \<or>
    i_visible_height d \<noteq> i_visible_height s \<or> i_x_offset d \<noteq> i_x_offset s \<or>
    i_y_offset d \<noteq> i_y_offset s) = (\<not> spec_same_geometry d s)"
  unfolding spec_same_geometry_def by blast

lemma Open_identity:
  assumes "video_format_GetTransform env (orientation (fmt_in_video filt))
             (orientation (fmt_out_video filt)) = TRANSFORM_IDENTITY"
  shows "Open env filt = (VLC_ENOTSUP, filt)"
  using assms by (simp add: Open_def Let_def split del: if_split)

lemma Open_geometry:
  assumes "\<not> spec_same_geometry (fmt_out_video filt)
             (video_format_TransformBy env (fmt_in_video filt)
                (video_format_GetTransform env (orientation (fmt_in_video filt))
                   (orientation (fmt_out_video filt))))"
  shows "Open env filt = (VLC_ENOTSUP, filt)"
  unfolding Open_def Let_def geometry_differs
  using assms
  by (cases "video_format_GetTransform env (orientation (fmt_in_video filt))
             (orientation (fmt_out_video filt)) = TRANSFORM_IDENTITY")
    (simp_all split del: if_split)

lemma Open_chroma:
  assumes "vlc_fourcc_GetChromaDescription env (i_chroma (fmt_in_video filt)) = None"
  shows "Open env filt = (VLC_ENOTSUP, filt)"
  unfolding Open_def Let_def geometry_differs
  using assms
  by (cases "video_format_GetTransform env (orientation (fmt_in_video filt))
             (orientation (fmt_out_video filt)) = TRANSFORM_IDENTITY";
      cases "spec_same_geometry (fmt_out_video filt)
             (video_format_TransformBy env (fmt_in_video filt)
                (video_format_GetTransform env (orientation (fmt_in_video filt))
                   (orientation (fmt_out_video filt))))")
    (simp_all split del: if_split)

lemma Open_pixel_size:
  assumes "vlc_obj_malloc_ok env"
    and "vlc_fourcc_GetChromaDescription env (i_chroma (fmt_in_video filt)) = Some chroma"
    and "pixel_size chroma \<notin> {1, 2, 4}"
  shows "Open env filt = (VLC_ENOTSUP, filt)"
  unfolding Open_def Let_def geometry_differs
  using assms
  by (cases "video_format_GetTransform env (orientation (fmt_in_video filt))
             (orientation (fmt_out_video filt)) = TRANSFORM_IDENTITY";
      cases "spec_same_geometry (fmt_out_video filt)
             (video_format_TransformBy env (fmt_in_video filt)
                (video_format_GetTransform env (orientation (fmt_in_video filt))
                   (orientation (fmt_out_video filt))))")
    (simp_all add: switch_pixel_size_def split del: if_split)

lemma Open_nonsquare:
  assumes "vlc_obj_malloc_ok env"
    and "vlc_fourcc_GetChromaDescription env (i_chroma (fmt_in_video filt)) = Some chroma"
    and "ORIENT_IS_SWAP (video_format_GetTransform env (orientation (fmt_in_video filt))
           (orientation (fmt_out_video filt)))"
    and "j < plane_count chroma" "\<not> spec_square (chroma_p chroma j)"
  shows "Open env filt = (VLC_ENOTSUP, filt)"
proof -
  have "nonsquare_samples chroma 0"
    unfolding nonsquare_samples_iff using assms(4,5) by auto
  then show ?thesis
    unfolding Open_def Let_def geometry_differs
    using assms(1-3)
    by (cases "video_format_GetTransform env (orientation (fmt_in_video filt))
             (orientation (fmt_out_video filt)) = TRANSFORM_IDENTITY";
        cases "spec_same_geometry (fmt_out_video filt)
             (video_format_TransformBy env (fmt_in_video filt)
                (video_format_GetTransform env (orientation (fmt_in_video filt))
                   (orientation (fmt_out_video filt))))";
        cases "switch_pixel_size
                 (descriptions (video_format_GetTransform env (orientation (fmt_in_video filt))
                    (orientation (fmt_out_video filt)))) (pixel_size chroma)")
      (simp_all split del: if_split)
qed

lemma Open_success:
  assumes t: "video_format_GetTransform env (orientation (fmt_in_video filt))
                (orientation (fmt_out_video filt)) = t"
    and nid: "t \<noteq> TRANSFORM_IDENTITY"
    and geo: "spec_same_geometry (fmt_out_video filt)
                (video_format_TransformBy env (fmt_in_video filt) t)"
    and chroma: "vlc_fourcc_GetChromaDescription env (i_chroma (fmt_in_video filt)) = Some chroma"
    and mem: "vlc_obj_malloc_ok env"
    and cb: "switch_pixel_size (descriptions t) (pixel_size chroma) = Some cb"
    and sq: "ORIENT_IS_SWAP t \<longrightarrow> (\<forall>j\<in>{0..<plane_count chroma}. spec_square (chroma_p chroma j))"
  shows "Open env filt =
     (VLC_SUCCESS, filt\<lparr>ops := Some filter_ops, p_sys := Some
        \<lparr>transform = t,
         plane =
           (if i_chroma (fmt_in_video filt) = VLC_CODEC_NV12 \<or>
               i_chroma (fmt_in_video filt) = VLC_CODEC_NV21
            then (fill_planes (PICTURE_PLANE_MAX env) 1
                    ((replicate (PICTURE_PLANE_MAX env) None)[0 := cb]))
                 [1 := plane16 (descriptions t)]
            else fill_planes (PICTURE_PLANE_MAX env) 1
                   ((replicate (PICTURE_PLANE_MAX env) None)[0 := cb]))\<rparr>\<rparr>)"
proof -
  have "\<not> (ORIENT_IS_SWAP t \<and> nonsquare_samples chroma 0)"
    unfolding nonsquare_samples_iff using sq by blast
  then show ?thesis
    unfolding Open_def Let_def geometry_differs
    using t nid geo chroma mem cb
    by (cases "ORIENT_IS_SWAP t";
        cases "i_chroma (fmt_in_video filt) = VLC_CODEC_NV12 \<or>
               i_chroma (fmt_in_video filt) = VLC_CODEC_NV21")
      (simp_all split del: if_split)
qed


lemma switch_pixel_size_Some:
  "n \<in> {1, 2, 4} \<Longrightarrow> \<exists>cb. switch_pixel_size dsc n = Some cb"
  by (auto simp: switch_pixel_size_def)

lemma Open_accepts:
  assumes mem: "vlc_obj_malloc_ok env" and gate: "spec_CompatibilityGate env filt"
  shows "\<exists>sys. Open env filt = (VLC_SUCCESS, filt\<lparr>ops := Some filter_ops, p_sys := Some sys\<rparr>)"
proof -
  let ?t = "video_format_GetTransform env (orientation (fmt_in_video filt))
              (orientation (fmt_out_video filt))"
  from gate have nid: "?t \<noteq> TRANSFORM_IDENTITY"
    and geo: "spec_same_geometry (fmt_out_video filt)
                (video_format_TransformBy env (fmt_in_video filt) ?t)"
    by (simp_all add: spec_CompatibilityGate_def Let_def)
  from gate obtain chroma
    where chroma: "vlc_fourcc_GetChromaDescription env (i_chroma (fmt_in_video filt)) = Some chroma"
      and sq: "ORIENT_IS_SWAP ?t \<longrightarrow>
                 (\<forall>j\<in>{0..<plane_count chroma}. spec_square (chroma_p chroma j))"
      and px: "pixel_size chroma \<in> {1, 2, 4}"
    by (auto simp: spec_CompatibilityGate_def Let_def split: option.splits)
  from switch_pixel_size_Some [OF px] obtain cb
    where cb: "switch_pixel_size (descriptions ?t) (pixel_size chroma) = Some cb" by blast
  from Open_success [OF refl nid geo chroma mem cb sq] show ?thesis by blast
qed

lemma Open_rejects:
  assumes mem: "vlc_obj_malloc_ok env" and gate: "\<not> spec_CompatibilityGate env filt"
  shows "Open env filt = (VLC_ENOTSUP, filt)"
proof -
  let ?t = "video_format_GetTransform env (orientation (fmt_in_video filt))
              (orientation (fmt_out_video filt))"
  consider "?t = TRANSFORM_IDENTITY"
    | "\<not> spec_same_geometry (fmt_out_video filt)
                (video_format_TransformBy env (fmt_in_video filt) ?t)"
    | "vlc_fourcc_GetChromaDescription env (i_chroma (fmt_in_video filt)) = None"
    | chroma where
        "vlc_fourcc_GetChromaDescription env (i_chroma (fmt_in_video filt)) = Some chroma"
        "pixel_size chroma \<notin> {1, 2, 4}"
    | chroma j where
        "vlc_fourcc_GetChromaDescription env (i_chroma (fmt_in_video filt)) = Some chroma"
        "ORIENT_IS_SWAP ?t" "j < plane_count chroma" "\<not> spec_square (chroma_p chroma j)"
    using gate unfolding spec_CompatibilityGate_def Let_def
    by (cases "vlc_fourcc_GetChromaDescription env (i_chroma (fmt_in_video filt))") auto
  then show ?thesis
  proof cases
    case 1
    then show ?thesis by (rule Open_identity)
  next
    case 2
    then show ?thesis by (rule Open_geometry)
  next
    case 3
    then show ?thesis by (rule Open_chroma)
  next
    case 4
    with mem show ?thesis by (intro Open_pixel_size)
  next
    case 5
    with mem show ?thesis by (intro Open_nonsquare)
  qed
qed

text \<open>
  C7. When the allocation of \<^verbatim>\<open>sys\<close> succeeds, \<^verbatim>\<open>Open\<close> succeeds and installs a
  transform table exactly when all five conditions hold: the transform is not the identity;
  the transformed source geometry equals the destination format in chroma, width, visible
  width, height, visible height and both offsets; the chroma description of the source
  resolves; for a swap-class transform every plane has a 1:1 ratio of horizontal to vertical
  sample density; the pixel size is 1, 2 or 4. Any violation gives \<^verbatim>\<open>VLC_ENOTSUP\<close> and
  leaves the filter as it was. In particular R90 is rejected when a plane has 2:1 horizontal
  and 1:1 vertical subsampling.
\<close>

theorem Open_succeeds_iff_compatible:
  "(\<forall>env filt. vlc_obj_malloc_ok env \<longrightarrow>
      (fst (Open env filt) = VLC_SUCCESS \<longleftrightarrow> spec_CompatibilityGate env filt) \<and>
      (spec_CompatibilityGate env filt \<longrightarrow>
         (\<exists>sys. Open env filt =
            (VLC_SUCCESS, filt\<lparr>ops := Some filter_ops, p_sys := Some sys\<rparr>))) \<and>
      (\<not> spec_CompatibilityGate env filt \<longrightarrow> Open env filt = (VLC_ENOTSUP, filt))) \<and>
   (\<forall>env filt chroma i. vlc_obj_malloc_ok env \<and>
      video_format_GetTransform env (orientation (fmt_in_video filt))
        (orientation (fmt_out_video filt)) = TRANSFORM_R90 \<and>
      vlc_fourcc_GetChromaDescription env (i_chroma (fmt_in_video filt)) = Some chroma \<and>
      i < plane_count chroma \<and>
      w_ratio (chroma_p chroma i) = \<lparr>num = 1, den = 2\<rparr> \<and>
      h_ratio (chroma_p chroma i) = \<lparr>num = 1, den = 1\<rparr> \<longrightarrow>
      Open env filt = (VLC_ENOTSUP, filt))"
proof (intro conjI allI impI)
  fix env :: collaborators and filt :: filter_t
  assume mem: "vlc_obj_malloc_ok env"
  show "fst (Open env filt) = VLC_SUCCESS \<longleftrightarrow> spec_CompatibilityGate env filt"
  proof
    assume ok: "fst (Open env filt) = VLC_SUCCESS"
    show "spec_CompatibilityGate env filt"
    proof (rule ccontr)
      assume "\<not> spec_CompatibilityGate env filt"
      from Open_rejects [OF mem this] ok show False by simp
    qed
  next
    assume "spec_CompatibilityGate env filt"
    from Open_accepts [OF mem this] show "fst (Open env filt) = VLC_SUCCESS" by auto
  qed
  show "\<exists>sys. Open env filt = (VLC_SUCCESS, filt\<lparr>ops := Some filter_ops, p_sys := Some sys\<rparr>)"
    if "spec_CompatibilityGate env filt"
    using mem that by (rule Open_accepts)
  show "Open env filt = (VLC_ENOTSUP, filt)" if "\<not> spec_CompatibilityGate env filt"
    using mem that by (rule Open_rejects)
next
  fix env :: collaborators and filt :: filter_t and chroma i
  assume h: "vlc_obj_malloc_ok env \<and>
      video_format_GetTransform env (orientation (fmt_in_video filt))
        (orientation (fmt_out_video filt)) = TRANSFORM_R90 \<and>
      vlc_fourcc_GetChromaDescription env (i_chroma (fmt_in_video filt)) = Some chroma \<and>
      i < plane_count chroma \<and>
      w_ratio (chroma_p chroma i) = \<lparr>num = 1, den = 2\<rparr> \<and>
      h_ratio (chroma_p chroma i) = \<lparr>num = 1, den = 1\<rparr>"
  then have "\<not> spec_square (chroma_p chroma i)" by (simp add: spec_square_def)
  with h show "Open env filt = (VLC_ENOTSUP, filt)"
    by (intro Open_nonsquare [where j = i and chroma = chroma]) simp_all
qed


text \<open>
  R90 from a 3 by 2 source to a 2 by 3 destination: accepted for a format with one full
  plane, rejected for a format whose chroma planes have half the horizontal density.
\<close>

theorem Open_succeeds_iff_compatible_witness:
  "vlc_obj_malloc_ok (example_env TRANSFORM_R90) \<and>
   spec_CompatibilityGate (example_env TRANSFORM_R90)
     (unopened (format_of ''GREY'' 3 2 0) (format_of ''GREY'' 2 3 1)) \<and>
   fst (Open (example_env TRANSFORM_R90)
          (unopened (format_of ''GREY'' 3 2 0) (format_of ''GREY'' 2 3 1))) = VLC_SUCCESS \<and>
   Open (example_env TRANSFORM_R90) (unopened (format_of ''I422'' 3 2 0) (format_of ''I422'' 2 3 1))
     = (VLC_ENOTSUP, unopened (format_of ''I422'' 3 2 0) (format_of ''I422'' 2 3 1))"
proof -
  let ?env = "example_env TRANSFORM_R90"
  let ?ok = "unopened (format_of ''GREY'' 3 2 0) (format_of ''GREY'' 2 3 1)"
  let ?bad = "unopened (format_of ''I422'' 3 2 0) (format_of ''I422'' 2 3 1)"
  have mem: "vlc_obj_malloc_ok ?env" by (simp add: example_env_def)
  have gate: "spec_CompatibilityGate ?env ?ok"
    by (simp add: spec_CompatibilityGate_def Let_def example_env_def unopened_def format_of_def
        spec_TransformBy_def spec_same_geometry_def example_chroma_def full_plane_def
        spec_square_def)
  have "fst (Open ?env ?ok) = VLC_SUCCESS"
    using Open_succeeds_iff_compatible [THEN conjunct1, rule_format, OF mem, of ?ok] gate
    by simp
  moreover have "Open ?env ?bad = (VLC_ENOTSUP, ?bad)"
    by (rule Open_succeeds_iff_compatible [THEN conjunct2, rule_format,
          where i = 1 and chroma = "the (example_chroma ''I422'')"])
       (simp add: example_env_def unopened_def format_of_def example_chroma_def)
  ultimately show ?thesis using mem gate by simp
qed

lemma Open_needs_memory:
  assumes "\<not> vlc_obj_malloc_ok env"
  shows "fst (Open env filt) \<noteq> VLC_SUCCESS"
  unfolding Open_def Let_def geometry_differs
  using assms
  by (cases "video_format_GetTransform env (orientation (fmt_in_video filt))
               (orientation (fmt_out_video filt)) = TRANSFORM_IDENTITY";
      cases "spec_same_geometry (fmt_out_video filt)
               (video_format_TransformBy env (fmt_in_video filt)
                  (video_format_GetTransform env (orientation (fmt_in_video filt))
                     (orientation (fmt_out_video filt))))";
      cases "vlc_fourcc_GetChromaDescription env (i_chroma (fmt_in_video filt))")
    (simp_all split del: if_split)

lemma switch_pixel_size_width:
  assumes "switch_pixel_size dsc n = Some cb"
  shows "\<exists>b. int n = esize b \<and> cb = plane_of dsc b"
proof -
  from assms consider "n = 1" "cb = plane8 dsc" | "n = 2" "cb = plane16 dsc"
    | "n = 4" "cb = plane32 dsc"
    by (auto simp: switch_pixel_size_def split: if_splits)
  then show ?thesis
  proof cases
    case 1
    then have "int n = esize B8 \<and> cb = plane_of dsc B8" by (simp add: esize_def)
    then show ?thesis by blast
  next
    case 2
    then have "int n = esize B16 \<and> cb = plane_of dsc B16" by (simp add: esize_def)
    then show ?thesis by blast
  next
    case 3
    then have "int n = esize B32 \<and> cb = plane_of dsc B32" by (simp add: esize_def)
    then show ?thesis by blast
  qed
qed

lemma filled_nth:
  assumes "i < n"
  shows "fill_planes n 1 ((replicate n None)[0 := cb]) ! i = cb"
proof -
  have "fill_planes n 1 ((replicate n None)[0 := cb]) ! i =
        (if i < 1 then (replicate n None)[0 := cb] ! i else (replicate n None)[0 := cb] ! 0)"
    using assms by (intro fill_planes_nth) simp_all
  also have "\<dots> = cb" using assms by (cases i) simp_all
  finally show ?thesis .
qed

lemma Open_table:
  assumes ok: "Open env filt = (VLC_SUCCESS, filt')" and sys: "p_sys filt' = Some sys"
  shows "transform sys = video_format_GetTransform env (orientation (fmt_in_video filt))
                           (orientation (fmt_out_video filt)) \<and>
         length (plane sys) = PICTURE_PLANE_MAX env \<and>
         (\<exists>chroma b.
            vlc_fourcc_GetChromaDescription env (i_chroma (fmt_in_video filt)) = Some chroma \<and>
            int (pixel_size chroma) = esize b \<and>
            (\<forall>i<PICTURE_PLANE_MAX env.
               plane sys ! i =
                 plane_of (descriptions (transform sys))
                   (if i = 1 \<and> (i_chroma (fmt_in_video filt) = VLC_CODEC_NV12 \<or>
                                 i_chroma (fmt_in_video filt) = VLC_CODEC_NV21)
                    then B16 else b)))"
proof -
  let ?t = "video_format_GetTransform env (orientation (fmt_in_video filt))
              (orientation (fmt_out_video filt))"
  let ?n = "PICTURE_PLANE_MAX env"
  let ?nv = "i_chroma (fmt_in_video filt) = VLC_CODEC_NV12 \<or>
             i_chroma (fmt_in_video filt) = VLC_CODEC_NV21"
  have mem: "vlc_obj_malloc_ok env"
    using Open_needs_memory [of env filt] ok by auto
  have gate: "spec_CompatibilityGate env filt"
    using Open_rejects [OF mem, of filt] ok by auto
  then have nid: "?t \<noteq> TRANSFORM_IDENTITY"
    and geo: "spec_same_geometry (fmt_out_video filt)
                (video_format_TransformBy env (fmt_in_video filt) ?t)"
    by (simp_all add: spec_CompatibilityGate_def Let_def)
  from gate obtain chroma
    where chroma: "vlc_fourcc_GetChromaDescription env (i_chroma (fmt_in_video filt)) = Some chroma"
      and sq: "ORIENT_IS_SWAP ?t \<longrightarrow>
                 (\<forall>j\<in>{0..<plane_count chroma}. spec_square (chroma_p chroma j))"
      and px: "pixel_size chroma \<in> {1, 2, 4}"
    by (auto simp: spec_CompatibilityGate_def Let_def split: option.splits)
  from switch_pixel_size_Some [OF px] obtain cb
    where cb: "switch_pixel_size (descriptions ?t) (pixel_size chroma) = Some cb" by blast
  from switch_pixel_size_width [OF cb] obtain b
    where b: "int (pixel_size chroma) = esize b" "cb = plane_of (descriptions ?t) b" by blast
  let ?filled = "fill_planes ?n 1 ((replicate ?n None)[0 := cb])"
  from Open_success [OF refl nid geo chroma mem cb sq] ok sys
  have sys_eq: "sys = \<lparr>transform = ?t,
                       plane = (if ?nv then ?filled[1 := plane16 (descriptions ?t)] else ?filled)\<rparr>"
    by auto
  have len: "length ?filled = ?n" by (simp add: fill_planes_length)
  have nth: "plane sys ! i = plane_of (descriptions (transform sys)) (if i = 1 \<and> ?nv then B16 else b)"
    if "i < ?n" for i
    using that len filled_nth [OF that, of cb] b(2)
    by (simp add: sys_eq nth_list_update)
  have "transform sys = ?t" and "length (plane sys) = ?n"
    using len by (simp_all add: sys_eq)
  with chroma b(1) nth show ?thesis by blast
qed


text \<open>
  C8. In the table \<^verbatim>\<open>Open\<close> builds, every plane below \<^verbatim>\<open>PICTURE_PLANE_MAX\<close> has the
  callback that the catalogue holds, for the transform of the filter, at the element width
  given by the pixel size of the format (1, 2 or 4 bytes); except that for NV12 and NV21
  plane 1 has the 2-byte callback of the same transform, whatever the pixel size is.
\<close>

theorem Open_builds_plane_table:
  "\<forall>env filt filt' sys.
      Open env filt = (VLC_SUCCESS, filt') \<and> p_sys filt' = Some sys \<longrightarrow>
      transform sys = video_format_GetTransform env (orientation (fmt_in_video filt))
                        (orientation (fmt_out_video filt)) \<and>
      length (plane sys) = PICTURE_PLANE_MAX env \<and>
      (\<exists>chroma b.
         vlc_fourcc_GetChromaDescription env (i_chroma (fmt_in_video filt)) = Some chroma \<and>
         int (pixel_size chroma) = esize b \<and>
         (\<forall>i<PICTURE_PLANE_MAX env.
            plane sys ! i =
              plane_of (descriptions (transform sys))
                (if i = 1 \<and> (i_chroma (fmt_in_video filt) = VLC_CODEC_NV12 \<or>
                              i_chroma (fmt_in_video filt) = VLC_CODEC_NV21)
                 then B16 else b)))"
  using Open_table by blast

text \<open>
  HFLIP of an NV12 picture, whose pixel size is 1: planes 0 and 4 get \<^verbatim>\<open>hflip_8\<close>,
  plane 1 gets \<^verbatim>\<open>hflip_16\<close>.
\<close>

theorem Open_builds_plane_table_witness:
  "\<exists>sys. Open (example_env TRANSFORM_HFLIP)
            (unopened (format_of VLC_CODEC_NV12 4 2 0) (format_of VLC_CODEC_NV12 4 2 1)) =
          (VLC_SUCCESS,
           (unopened (format_of VLC_CODEC_NV12 4 2 0) (format_of VLC_CODEC_NV12 4 2 1))
             \<lparr>ops := Some filter_ops, p_sys := Some sys\<rparr>) \<and>
     transform sys = TRANSFORM_HFLIP \<and> length (plane sys) = 5 \<and>
     plane sys ! 0 = Some (hflip_bits B8) \<and>
     plane sys ! 1 = Some (hflip_bits B16) \<and>
     plane sys ! 4 = Some (hflip_bits B8)"
proof -
  let ?env = "example_env TRANSFORM_HFLIP"
  let ?f = "unopened (format_of VLC_CODEC_NV12 4 2 0) (format_of VLC_CODEC_NV12 4 2 1)"
  have mem: "vlc_obj_malloc_ok ?env" by (simp add: example_env_def)
  have gate: "spec_CompatibilityGate ?env ?f"
    by (simp add: spec_CompatibilityGate_def Let_def example_env_def unopened_def format_of_def
        spec_TransformBy_def spec_same_geometry_def example_chroma_def VLC_CODEC_NV12_def)
  from Open_accepts [OF mem gate] obtain sys
    where ok: "Open ?env ?f = (VLC_SUCCESS, ?f\<lparr>ops := Some filter_ops, p_sys := Some sys\<rparr>)"
    by blast
  have "p_sys (?f\<lparr>ops := Some filter_ops, p_sys := Some sys\<rparr>) = Some sys" by simp
  with Open_builds_plane_table [rule_format, of ?env ?f _ sys] ok
  obtain chroma b where t: "transform sys = TRANSFORM_HFLIP" and len: "length (plane sys) = 5"
    and chroma: "example_chroma VLC_CODEC_NV12 = Some chroma"
    and b: "int (pixel_size chroma) = esize b"
    and nth: "\<And>i. i < 5 \<Longrightarrow> plane sys ! i =
                plane_of (descriptions TRANSFORM_HFLIP) (if i = 1 then B16 else b)"
    by (auto simp: example_env_def unopened_def format_of_def)
  from chroma b have "b = B8"
    by (cases b) (auto simp: example_chroma_def VLC_CODEC_NV12_def esize_def)
  with nth [of 0] nth [of 1] nth [of 4] t len ok show ?thesis
    by (auto simp: DESC_def)
qed

section \<open>The claim about Filter\<close>

lemma call_plane_length:
  "call_plane sys dst src i = Inr dst' \<Longrightarrow> length (pic_p dst') = length (pic_p dst)"
  by (auto simp: call_plane_def Let_def split: option.splits if_splits)

lemma call_plane_returns:
  assumes "sys = Some s" "i < length (plane s)" "i < length (pic_p dst)" "i < length (pic_p src)"
    and "plane s ! i \<noteq> None" "i_pixel_pitch (pic_p src ! i) \<noteq> 0"
  shows "\<exists>dst'. call_plane sys dst src i = Inr dst'"
  using assms by (auto simp: call_plane_def Let_def split: option.splits)

lemma Filter_planes_trace:
  "0 \<le> i \<Longrightarrow> Filter_planes sys src i (dst, trace) = Inr (dst', trace') \<Longrightarrow>
   trace' = trace @ map PlaneCall [nat i..<nat (i_planes src)]"
proof (induction sys src i "(dst, trace)" arbitrary: dst trace rule: Filter_planes.induct)
  case (1 sys src i dst trace)
  show ?case
  proof (cases "i < i_planes src")
    case True
    from "1.prems"(2) True obtain d where
      call: "call_plane sys dst src (nat i) = Inr d" and
      rest: "Filter_planes sys src (i + 1) (d, trace @ [PlaneCall (nat i)]) = Inr (dst', trace')"
      by (subst (asm) Filter_planes.simps) (auto split: sum.splits)
    have "trace' = (trace @ [PlaneCall (nat i)]) @ map PlaneCall [nat (i + 1)..<nat (i_planes src)]"
      using "1.hyps" [OF True call _ rest] "1.prems"(1) by simp
    moreover have "[nat i..<nat (i_planes src)] = nat i # [nat (i + 1)..<nat (i_planes src)]"
      using True "1.prems"(1) by (simp add: upt_conv_Cons nat_add_distrib)
    ultimately show ?thesis by simp
  next
    case False
    with "1.prems" show ?thesis by (subst (asm) Filter_planes.simps) simp
  qed
qed

lemma Filter_planes_returns:
  "sys = Some s \<Longrightarrow> nat (i_planes src) \<le> length (plane s) \<Longrightarrow>
   nat (i_planes src) \<le> length (pic_p src) \<Longrightarrow>
   \<forall>k<nat (i_planes src). plane s ! k \<noteq> None \<and> i_pixel_pitch (pic_p src ! k) \<noteq> 0 \<Longrightarrow>
   0 \<le> i \<Longrightarrow> nat (i_planes src) \<le> length (pic_p dst) \<Longrightarrow>
   \<exists>dst' trace'. Filter_planes sys src i (dst, trace) = Inr (dst', trace')"
proof (induction sys src i "(dst, trace)" arbitrary: dst trace rule: Filter_planes.induct)
  case (1 sys src i dst trace)
  note sys = "1.prems"(1) and lens = "1.prems"(2,3,6) and ok = "1.prems"(4) and i0 = "1.prems"(5)
  show ?case
  proof (cases "i < i_planes src")
    case True
    then have k: "nat i < nat (i_planes src)" using i0 by simp
    have "nat i < length (plane s)" "nat i < length (pic_p dst)" "nat i < length (pic_p src)"
      using less_le_trans [OF k lens(1)] less_le_trans [OF k lens(3)]
        less_le_trans [OF k lens(2)] .
    moreover have "plane s ! nat i \<noteq> None" "i_pixel_pitch (pic_p src ! nat i) \<noteq> 0"
      using k ok by blast+
    ultimately obtain d where call: "call_plane sys dst src (nat i) = Inr d"
      using call_plane_returns [OF sys, of "nat i" dst src] by blast
    have len: "nat (i_planes src) \<le> length (pic_p d)"
      using call_plane_length [OF call] lens(3) by simp
    have "0 \<le> i + 1" using i0 by simp
    from "1.hyps" [OF True call sys lens(1,2) ok this len]
    obtain dst' trace' where
      "Filter_planes sys src (i + 1) (d, trace @ [PlaneCall (nat i)]) = Inr (dst', trace')"
      by blast
    then show ?thesis using True call by (subst Filter_planes.simps) simp
  next
    case False
    then show ?thesis by (subst Filter_planes.simps) simp
  qed
qed


lemma Filter_fails:
  "Filter filt None src = Inr (None, [NewPicture, Release])"
  by (simp add: Filter_def)

lemma Filter_trace:
  assumes "Filter filt new_picture src = Inr (r, trace)"
  shows "(new_picture = None \<and> r = None \<and> trace = [NewPicture, Release]) \<or>
         (new_picture \<noteq> None \<and> r \<noteq> None \<and>
          trace = [NewPicture] @ map PlaneCall [0..<nat (i_planes src)] @ [CopyProperties, Release])"
proof (cases new_picture)
  case None
  with assms show ?thesis by (simp add: Filter_def)
next
  case (Some dst)
  with assms obtain dst' tr where
    planes: "Filter_planes (p_sys filt) src 0 (dst, [NewPicture]) = Inr (dst', tr)"
    and r: "r = Some (picture_CopyProperties dst' src)"
    and trace: "trace = tr @ [CopyProperties, Release]"
    by (auto simp: Filter_def Let_def split: sum.splits)
  from Filter_planes_trace [OF _ planes]
  have "tr = [NewPicture] @ map PlaneCall [0..<nat (i_planes src)]" by simp
  with Some r trace show ?thesis by simp
qed

lemma Filter_returns:
  assumes "p_sys filt = Some s" "nat (i_planes src) \<le> length (plane s)"
    and "nat (i_planes src) \<le> length (pic_p dst)" "nat (i_planes src) \<le> length (pic_p src)"
    and "\<forall>k<nat (i_planes src). plane s ! k \<noteq> None \<and> i_pixel_pitch (pic_p src ! k) \<noteq> 0"
  shows "\<exists>dst'. Filter filt (Some dst) src =
           Inr (Some dst',
                [NewPicture] @ map PlaneCall [0..<nat (i_planes src)] @ [CopyProperties, Release])"
proof -
  from Filter_planes_returns [OF assms(1,2,4,5) _ assms(3), of 0 "[NewPicture]"]
  obtain dst' tr where
    planes: "Filter_planes (p_sys filt) src 0 (dst, [NewPicture]) = Inr (dst', tr)"
    by auto
  then have "Filter filt (Some dst) src =
      Inr (Some (picture_CopyProperties dst' src), tr @ [CopyProperties, Release])"
    by (simp add: Filter_def)
  with Filter_trace [OF this] show ?thesis by auto
qed

lemma count_Release_calls: "count_list (map PlaneCall ks) Release = 0"
  by (induction ks) simp_all

text \<open>
  C9. Every call of \<^verbatim>\<open>Filter\<close> that returns releases the source picture exactly once,
  as its last call, whether the destination was allocated or not. When the allocation
  fails, \<^verbatim>\<open>Filter\<close> returns no picture and calls no plane callback and no
  \<^verbatim>\<open>picture_CopyProperties\<close>. When it succeeds, with a table that has a callback for each
  plane of the source, \<^verbatim>\<open>Filter\<close> returns a picture after calling the callback of each
  plane in turn, then \<^verbatim>\<open>picture_CopyProperties\<close>, then \<^verbatim>\<open>picture_Release\<close>.
\<close>

theorem Filter_releases_source_once:
  "(\<forall>filt src. Filter filt None src = Inr (None, [NewPicture, Release])) \<and>
   (\<forall>filt new_picture src r trace.
      Filter filt new_picture src = Inr (r, trace) \<longrightarrow>
      count_list trace Release = 1 \<and> last trace = Release \<and>
      (new_picture = None \<longrightarrow>
         r = None \<and> CopyProperties \<notin> set trace \<and> (\<forall>i. PlaneCall i \<notin> set trace))) \<and>
   (\<forall>filt s dst src.
      p_sys filt = Some s \<and>
      nat (i_planes src) \<le> length (plane s) \<and>
      nat (i_planes src) \<le> length (pic_p dst) \<and>
      nat (i_planes src) \<le> length (pic_p src) \<and>
      (\<forall>k<nat (i_planes src). plane s ! k \<noteq> None \<and> i_pixel_pitch (pic_p src ! k) \<noteq> 0) \<longrightarrow>
      (\<exists>dst'. Filter filt (Some dst) src =
         Inr (Some dst',
              [NewPicture] @ map PlaneCall [0..<nat (i_planes src)] @ [CopyProperties, Release])))"
proof (intro conjI allI impI)
  fix filt src
  show "Filter filt None src = Inr (None, [NewPicture, Release])"
    by (rule Filter_fails)
next
  fix filt new_picture src r trace
  assume ret: "Filter filt new_picture src = Inr (r, trace)"
  from Filter_trace [OF ret]
  show "count_list trace Release = 1" and "last trace = Release"
    by (auto simp: count_Release_calls)
  assume "new_picture = None"
  with Filter_trace [OF ret]
  show "r = None" and "CopyProperties \<notin> set trace" and "PlaneCall i \<notin> set trace" for i
    by auto
next
  fix filt :: filter_t and s and dst src :: picture_t
  assume "p_sys filt = Some s \<and>
      nat (i_planes src) \<le> length (plane s) \<and>
      nat (i_planes src) \<le> length (pic_p dst) \<and>
      nat (i_planes src) \<le> length (pic_p src) \<and>
      (\<forall>k<nat (i_planes src). plane s ! k \<noteq> None \<and> i_pixel_pitch (pic_p src ! k) \<noteq> 0)"
  then show "\<exists>dst'. Filter filt (Some dst) src =
         Inr (Some dst',
              [NewPicture] @ map PlaneCall [0..<nat (i_planes src)] @ [CopyProperties, Release])"
    by (intro Filter_returns) blast+
qed


text \<open>
  One frame through HFLIP: a picture with one plane of 4 by 1 one-byte elements 1, 2, 3, 4
  and the properties 7. Without a destination only the release happens; with one, the
  plane is flipped to 4, 3, 2, 1, the properties are copied and the source is released.
\<close>

theorem Filter_releases_source_once_witness:
  "Filter (opened (format_of ''GREY'' 4 1 0) (format_of ''GREY'' 4 1 1)
             \<lparr>transform = TRANSFORM_HFLIP, plane = replicate 5 (Some (hflip_bits B8))\<rparr>)
      None (example_picture [1, 2, 3, 4] 4 1 7) = Inr (None, [NewPicture, Release]) \<and>
   (\<exists>dst'.
      Filter (opened (format_of ''GREY'' 4 1 0) (format_of ''GREY'' 4 1 1)
                \<lparr>transform = TRANSFORM_HFLIP, plane = replicate 5 (Some (hflip_bits B8))\<rparr>)
        (Some (example_picture [0, 0, 0, 0] 4 1 0)) (example_picture [1, 2, 3, 4] 4 1 7) =
        Inr (Some dst', [NewPicture, PlaneCall 0, CopyProperties, Release]) \<and>
      count_list [NewPicture, PlaneCall 0, CopyProperties, Release] Release = 1 \<and>
      properties dst' = 7 \<and>
      map (p_pixels (pic_p dst' ! 0)) [0, 1, 2, 3] = [4, 3, 2, 1])"
proof -
  let ?s = "\<lparr>transform = TRANSFORM_HFLIP, plane = replicate 5 (Some (hflip_bits B8))\<rparr>"
  let ?f = "opened (format_of ''GREY'' 4 1 0) (format_of ''GREY'' 4 1 1) ?s"
  let ?src = "example_picture [1, 2, 3, 4] 4 1 7"
  let ?dst = "example_picture [0, 0, 0, 0] 4 1 0"
  note main = Filter_releases_source_once
  have none: "Filter ?f None ?src = Inr (None, [NewPicture, Release])"
    by (rule main [THEN conjunct1, rule_format])
  have "\<exists>dst'. Filter ?f (Some ?dst) ?src =
         Inr (Some dst',
              [NewPicture] @ map PlaneCall [0..<nat (i_planes ?src)] @ [CopyProperties, Release])"
    by (rule main [THEN conjunct2, THEN conjunct2, rule_format, where s = ?s])
       (simp add: opened_def example_picture_def example_plane_def)
  then obtain dst' where
    run: "Filter ?f (Some ?dst) ?src =
            Inr (Some dst', [NewPicture, PlaneCall 0, CopyProperties, Release])"
    by (auto simp: example_picture_def)
  from main [THEN conjunct2, THEN conjunct1, rule_format, OF run]
  have once: "count_list [NewPicture, PlaneCall 0, CopyProperties, Release] Release = 1"
    by simp
  from run have px: "properties dst' = 7"
    "map (p_pixels (pic_p dst' ! 0)) [0, 1, 2, 3] = [4, 3, 2, 1]"
    by (auto simp: Filter_def Filter_planes.simps call_plane_def Let_def opened_def
        example_picture_def example_plane_def picture_CopyProperties_def hflip_bits_def
        hflip_y.simps hflip_x.simps assign_def memcpy_def esize_def mem_of_list_def)
  show ?thesis
    by (intro conjI exI [of _ dst']) (rule none run once px)+
qed

end
